theory Spec2Isabelle
  imports Main "HOL-Library.Word"
begin

section \<open>Form validation and submission of \<^verbatim>\<open>assets/js/validate.js\<close>\<close>

text \<open>
  The script wires two submit handlers: one for the newsletter form and one for the
  contact form. Both validate the input, pick a way of sending (EmailJS, Formspree or a
  demo mode) from four configuration constants, and report the result in the page.

  The development below embeds the script. JavaScript strings are sequences of 16-bit code
  units; the page is a record of the elements the script looks up (an element that is
  not in the page is \<open>None\<close>, as \<^verbatim>\<open>getElementById\<close> returning null); a handler is a
  function on the page that may end with an exception; an \<^verbatim>\<open>await\<close> splits a handler
  into the part that runs on the submit event and the part that runs when the awaited
  operation settles.
\<close>

subsection \<open>Strings\<close>

type_synonym jsstring = "16 word list"

text \<open>A string literal of the source, its characters all ASCII.\<close>

definition js :: "string \<Rightarrow> jsstring" where
  "js s = map (\<lambda>c. of_nat (of_char c)) s"

text \<open>The em dash (U+2014) of the source's messages.\<close>

definition em_dash :: jsstring where
  "em_dash = [0x2014]"

text \<open>
  The code units that \<^verbatim>\<open>\s\<close> matches in a regular expression and that
  \<^verbatim>\<open>String.prototype.trim\<close> strips: ECMAScript's WhiteSpace and LineTerminator.
\<close>

definition is_space :: "16 word \<Rightarrow> bool" where
  "is_space c \<longleftrightarrow>
     c \<in> set [0x09, 0x0A, 0x0B, 0x0C, 0x0D, 0x20, 0xA0, 0x1680, 0x2028, 0x2029, 0x202F,
              0x205F, 0x3000, 0xFEFF]
     \<or> (0x2000 \<le> c \<and> c \<le> 0x200A)"

definition trim :: "jsstring \<Rightarrow> jsstring" where
  "trim s = rev (dropWhile is_space (rev (dropWhile is_space s)))"

text \<open>
  \<^verbatim>\<open>toLowerCase\<close> on the letters A to Z. The rest of the Unicode case mapping is a table
  of the JavaScript engine; like this part, it maps letters to letters and leaves white
  space, \<^verbatim>\<open>@\<close> and \<^verbatim>\<open>.\<close> alone, which is all the regular expression below looks at.
\<close>

definition lower_unit :: "16 word \<Rightarrow> 16 word" where
  "lower_unit c = (if 0x41 \<le> c \<and> c \<le> 0x5A then c + 0x20 else c)"

definition toLowerCase :: "jsstring \<Rightarrow> jsstring" where
  "toLowerCase s = map lower_unit s"

text \<open>A string is truthy when it is not empty.\<close>

definition truthy :: "jsstring \<Rightarrow> bool" where
  "truthy s \<longleftrightarrow> s \<noteq> []"

abbreviation at_sign :: "16 word" where
  "at_sign \<equiv> 0x40"

abbreviation full_stop :: "16 word" where
  "full_stop \<equiv> 0x2E"

subsection \<open>The regular expression of \<^verbatim>\<open>isEmailValid\<close>\<close>

text \<open>
  The fragment of regular expressions the source uses: a pattern anchored at both ends
  (\<^verbatim>\<open>^...$\<close>) that is a sequence of items, each a character class taken once or one or
  more times (\<^verbatim>\<open>+\<close>). A class is a literal character or a negated set
  (\<^verbatim>\<open>[^...]\<close>) of literals and \<^verbatim>\<open>\s\<close>. \<open>matches\<close> is \<^verbatim>\<open>RegExp.prototype.test\<close>
  for such a pattern: it tries every way of splitting the string among the items.
\<close>

datatype cset = Space | Ch "16 word"

datatype cclass = Lit "16 word" | NoneOf "cset list"

datatype item = Once cclass | OneOrMore cclass

fun in_cset :: "cset \<Rightarrow> 16 word \<Rightarrow> bool" where
  "in_cset Space c = is_space c"
| "in_cset (Ch a) c = (c = a)"

fun cmatch :: "cclass \<Rightarrow> 16 word \<Rightarrow> bool" where
  "cmatch (Lit a) c = (c = a)"
| "cmatch (NoneOf ks) c = (\<not> list_ex (\<lambda>k. in_cset k c) ks)"

fun matches :: "item list \<Rightarrow> jsstring \<Rightarrow> bool" where
  "matches [] s = (s = [])"
| "matches (Once k # r) [] = False"
| "matches (Once k # r) (c # cs) = (cmatch k c \<and> matches r cs)"
| "matches (OneOrMore k # r) [] = False"
| "matches (OneOrMore k # r) (c # cs) =
     (cmatch k c \<and> (matches (OneOrMore k # r) cs \<or> matches r cs))"

text \<open>\<^verbatim>\<open>/^[^\s@]+@[^\s@]+\.[^\s@]+$/\<close>\<close>

definition email_regex :: "item list" where
  "email_regex =
     [OneOrMore (NoneOf [Space, Ch at_sign]), Once (Lit at_sign),
      OneOrMore (NoneOf [Space, Ch at_sign]), Once (Lit full_stop),
      OneOrMore (NoneOf [Space, Ch at_sign])]"

definition isEmailValid :: "jsstring \<Rightarrow> bool" where
  "isEmailValid email = matches email_regex (toLowerCase email)"

subsection \<open>The rule for e-mail addresses in words\<close>

text \<open>The part before the first \<^verbatim>\<open>@\<close> and the part after it.\<close>

definition local_part :: "jsstring \<Rightarrow> jsstring" where
  "local_part s = takeWhile (\<lambda>c. c \<noteq> at_sign) s"

definition domain_part :: "jsstring \<Rightarrow> jsstring" where
  "domain_part s = tl (dropWhile (\<lambda>c. c \<noteq> at_sign) s)"

text \<open>A full stop followed by a run of at least one character that is not white space.\<close>

fun dot_then_run :: "jsstring \<Rightarrow> bool" where
  "dot_then_run (c # c' # cs) =
     ((c = full_stop \<and> \<not> is_space c') \<or> dot_then_run (c' # cs))"
| "dot_then_run _ = False"

text \<open>
  The rule as the specification words it: no white space, exactly one \<^verbatim>\<open>@\<close> with a
  non-empty local part before it, and a domain part that contains a full stop followed by
  a run of characters that are not white space.
\<close>

definition stated_email_rule :: "jsstring \<Rightarrow> bool" where
  "stated_email_rule s \<longleftrightarrow>
     \<not> list_ex is_space s \<and> count_list s at_sign = 1 \<and> local_part s \<noteq> [] \<and>
     dot_then_run (domain_part s)"

text \<open>A full stop that is neither the first nor the last character.\<close>

definition inner_dot :: "jsstring \<Rightarrow> bool" where
  "inner_dot d \<longleftrightarrow> full_stop \<in> set (butlast (tl d))"

text \<open>
  The rule the regular expression decides: as above, but the full stop of the domain part
  has at least one character before it as well as after it.
\<close>

definition email_rule :: "jsstring \<Rightarrow> bool" where
  "email_rule s \<longleftrightarrow>
     \<not> list_ex is_space s \<and> count_list s at_sign = 1 \<and> local_part s \<noteq> [] \<and>
     inner_dot (domain_part s)"

subsection \<open>Configuration\<close>

text \<open>
  The four constants at the head of the script (each is to be replaced by the site's own
  value, and the empty string disables the service), and whether \<^verbatim>\<open>window.emailjs\<close>
  is defined when a handler runs.
\<close>

record env =
  EMAILJS_SERVICE_ID :: jsstring
  EMAILJS_TEMPLATE_ID :: jsstring
  EMAILJS_PUBLIC_KEY :: jsstring
  FORMSPREE_ENDPOINT :: jsstring
  window_emailjs :: bool

subsection \<open>The page\<close>

text \<open>
  An input element: its value, the default value that \<^verbatim>\<open>form.reset()\<close> restores (the
  element's \<^verbatim>\<open>value\<close> attribute, the empty string when it has none), and whether its
  class list holds \<^verbatim>\<open>is-invalid\<close>.
\<close>

record input =
  input_value :: jsstring
  default_value :: jsstring
  is_invalid :: bool

text \<open>The ids the contact handler looks up inside the form.\<close>

datatype field_id = Name | Email | Phone | Company | Subject | Message | Ref

text \<open>
  What \<^verbatim>\<open>toggleAlert\<close> finds inside a banner: no \<^verbatim>\<open>strong\<close> element (the banner's
  text is then plain), a \<^verbatim>\<open>strong\<close> element with nothing after it (its
  \<^verbatim>\<open>nextSibling\<close> is null), or a \<^verbatim>\<open>strong\<close> element followed by a node with the
  given text.
\<close>

datatype banner_body = NoStrong jsstring | StrongLast | StrongThen jsstring

record banner =
  d_none :: bool
  aria_hidden :: "jsstring option"
  body :: banner_body

record feedback =
  visually_hidden :: bool
  textContent :: jsstring
  role :: "jsstring option"

record page =
  contact_success :: "banner option"
  contact_error :: "banner option"
  contact_field :: "field_id \<Rightarrow> input option"
  contact_submit_disabled :: "bool option"
  contact_spinner_d_none :: "bool option"
  newsletter_email :: "input option"
  newsletter_feedback :: "feedback option"
  newsletter_email_focused :: bool

subsection \<open>Handlers as functions on the page\<close>

text \<open>
  A piece of the script runs on the page and either completes with a value or throws;
  the changes it made to the page before throwing stay. \<open>Rejection\<close> is what an
  \<^verbatim>\<open>await\<close> throws when the awaited promise rejects.
\<close>

datatype exn = TypeError | Rejection

datatype 'a completion = Normal 'a | Throw exn

type_synonym 'a js_run = "page \<Rightarrow> 'a completion \<times> page"

definition return :: "'a \<Rightarrow> 'a js_run" where
  "return x p = (Normal x, p)"

definition throw :: "exn \<Rightarrow> 'a js_run" where
  "throw e p = (Throw e, p)"

definition modify :: "(page \<Rightarrow> page) \<Rightarrow> unit js_run" where
  "modify f p = (Normal (), f p)"

definition then_js :: "'a js_run \<Rightarrow> ('a \<Rightarrow> 'b js_run) \<Rightarrow> 'b js_run" where
  "then_js m f p = (case m p of (Normal x, p') \<Rightarrow> f x p' | (Throw e, p') \<Rightarrow> (Throw e, p'))"

definition try_catch :: "'a js_run \<Rightarrow> (exn \<Rightarrow> 'a js_run) \<Rightarrow> 'a js_run" where
  "try_catch m h p = (case m p of (Normal x, p') \<Rightarrow> (Normal x, p') | (Throw e, p') \<Rightarrow> h e p')"

definition try_finally :: "'a js_run \<Rightarrow> unit js_run \<Rightarrow> 'a js_run" where
  "try_finally m fin p =
     (case m p of (c, p') \<Rightarrow>
        (case fin p' of (Normal _, p'') \<Rightarrow> (c, p'') | (Throw e, p'') \<Rightarrow> (Throw e, p'')))"

text \<open>How an awaited promise settles, and what \<^verbatim>\<open>await\<close> makes of it.\<close>

datatype 'a settled = Fulfilled 'a | Rejected

definition await_js :: "'a settled \<Rightarrow> 'a js_run" where
  "await_js r = (case r of Fulfilled x \<Rightarrow> return x | Rejected \<Rightarrow> throw Rejection)"

text \<open>
  A response is its status code; by the Fetch standard \<^verbatim>\<open>resp.ok\<close> is true for the
  statuses 200 to 299.
\<close>

definition resp_ok :: "nat \<Rightarrow> bool" where
  "resp_ok status \<longleftrightarrow> 200 \<le> status \<and> status \<le> 299"

subsection \<open>\<^verbatim>\<open>toggleAlert\<close> and \<^verbatim>\<open>showSpinner\<close>\<close>

datatype banner_id = ContactSuccess | ContactError

definition getBanner :: "banner_id \<Rightarrow> page \<Rightarrow> banner option" where
  "getBanner i p = (case i of ContactSuccess \<Rightarrow> contact_success p | ContactError \<Rightarrow> contact_error p)"

definition setBanner :: "banner_id \<Rightarrow> banner \<Rightarrow> page \<Rightarrow> page" where
  "setBanner i el p =
     (case i of ContactSuccess \<Rightarrow> p\<lparr>contact_success := Some el\<rparr>
              | ContactError \<Rightarrow> p\<lparr>contact_error := Some el\<rparr>)"

text \<open>
  With \<^verbatim>\<open>show\<close> and a non-empty message, the message goes into the node after the
  \<^verbatim>\<open>strong\<close> element, if the banner has a \<^verbatim>\<open>strong\<close> element; when nothing follows
  that element, the assignment to \<^verbatim>\<open>nextSibling.textContent\<close> throws, after the class
  \<^verbatim>\<open>d-none\<close> is removed and before \<^verbatim>\<open>aria-hidden\<close> is set.
\<close>

definition toggleAlert :: "banner_id \<Rightarrow> bool \<Rightarrow> jsstring \<Rightarrow> unit js_run" where
  "toggleAlert i show message p =
     (case getBanner i p of
        None \<Rightarrow> (Normal (), p)
      | Some el \<Rightarrow>
          if show then
            (let el1 = el\<lparr>d_none := False\<rparr> in
             if truthy message then
               (case body el1 of
                  NoStrong t \<Rightarrow> (Normal (), setBanner i (el1\<lparr>aria_hidden := Some (js ''false'')\<rparr>) p)
                | StrongLast \<Rightarrow> (Throw TypeError, setBanner i el1 p)
                | StrongThen t \<Rightarrow>
                    (Normal (),
                     setBanner i (el1\<lparr>body := StrongThen (js '' '' @ message),
                                       aria_hidden := Some (js ''false'')\<rparr>) p))
             else (Normal (), setBanner i (el1\<lparr>aria_hidden := Some (js ''false'')\<rparr>) p))
          else (Normal (), setBanner i (el\<lparr>d_none := True, aria_hidden := Some (js ''true'')\<rparr>) p))"

definition showSpinner :: "bool \<Rightarrow> page \<Rightarrow> page" where
  "showSpinner show p =
     p\<lparr>contact_spinner_d_none := map_option (\<lambda>_. \<not> show) (contact_spinner_d_none p),
       contact_submit_disabled := map_option (\<lambda>_. show) (contact_submit_disabled p)\<rparr>"

text \<open>\<^verbatim>\<open>form.reset()\<close> on the contact form and on the newsletter form.\<close>

definition reset_input :: "input \<Rightarrow> input" where
  "reset_input el = el\<lparr>input_value := default_value el\<rparr>"

definition form_reset :: "page \<Rightarrow> page" where
  "form_reset p = p\<lparr>contact_field := (\<lambda>f. map_option reset_input (contact_field p f))\<rparr>"

definition newsletter_reset :: "page \<Rightarrow> page" where
  "newsletter_reset p = p\<lparr>newsletter_email := map_option reset_input (newsletter_email p)\<rparr>"

subsection \<open>What a handler awaits, and how a submission ends\<close>

text \<open>
  The object literal passed to EmailJS or serialised for Formspree: keys and values, in
  the order of the source.
\<close>

type_synonym params = "(string \<times> jsstring) list"

text \<open>
  The operation whose result a handler waits for: the call
  \<^verbatim>\<open>window.emailjs.send(service, template, params, key)\<close>, the call
  \<^verbatim>\<open>fetch(url, {method, headers, body: JSON.stringify(params)})\<close>, or the timer set by
  \<^verbatim>\<open>setTimeout(..., ms)\<close>.
\<close>

datatype awaiting =
    AwaitEmailjsSend jsstring jsstring params jsstring
  | AwaitFetch jsstring string "(string \<times> string) list" params
  | AwaitTimeout nat

text \<open>
  The source has no value for the result of a submission: it only writes to the page.
  The handlers below return, beside the page, the specification's name for the branch
  they took: \<open>Success\<close>, or one of the two failures with the message the branch shows.
\<close>

datatype outcome = Success | ServiceFailure jsstring | NetworkFailure jsstring

text \<open>
  How the part of a handler that runs on the submit event ends: a needed element is not
  in the page (\<open>Absent\<close>), the input was refused (\<open>Invalid\<close>), an operation was
  started and is awaited (\<open>Pending\<close>), the submission is already over (\<open>Done\<close>), or
  the input was valid and no branch of the handler sent it (\<open>Dropped\<close>).
\<close>

datatype progress = Absent | Invalid | Pending awaiting | Done outcome | Dropped

datatype strategy = MailRelayStrategy | FormRelayStrategy | DemoStrategy

text \<open>
  The strategy a handler used, read off what it did: it called EmailJS, it called
  \<^verbatim>\<open>fetch\<close>, or it reported success without any backend (after a timer in the contact
  form, at once in the newsletter form).
\<close>

fun strategy_of :: "progress \<Rightarrow> strategy option" where
  "strategy_of (Pending (AwaitEmailjsSend _ _ _ _)) = Some MailRelayStrategy"
| "strategy_of (Pending (AwaitFetch _ _ _ _)) = Some FormRelayStrategy"
| "strategy_of (Pending (AwaitTimeout _)) = Some DemoStrategy"
| "strategy_of (Done _) = Some DemoStrategy"
| "strategy_of _ = None"

subsection \<open>The newsletter form\<close>

definition show_feedback :: "jsstring \<Rightarrow> page \<Rightarrow> page" where
  "show_feedback text p =
     p\<lparr>newsletter_feedback :=
         map_option (\<lambda>fb. fb\<lparr>visually_hidden := False, textContent := text\<rparr>)
           (newsletter_feedback p)\<rparr>"

definition show_feedback_alert :: "jsstring \<Rightarrow> page \<Rightarrow> page" where
  "show_feedback_alert text p =
     p\<lparr>newsletter_feedback :=
         map_option (\<lambda>fb. fb\<lparr>visually_hidden := False, textContent := text,
                              role := Some (js ''alert'')\<rparr>)
           (newsletter_feedback p)\<rparr>"

definition msg_newsletter_invalid :: jsstring where
  "msg_newsletter_invalid = js ''Please enter a valid email address.''"

definition msg_newsletter_demo :: jsstring where
  "msg_newsletter_demo = js ''Subscribed '' @ em_dash @ js '' thanks! (Demo mode)''"

definition msg_newsletter_subscribed :: jsstring where
  "msg_newsletter_subscribed = js ''Thanks '' @ em_dash @ js '' you are subscribed.''"

definition msg_newsletter_failed_later :: jsstring where
  "msg_newsletter_failed_later =
     js ''Subscription failed '' @ em_dash @ js '' please try again later.''"

definition msg_newsletter_network :: jsstring where
  "msg_newsletter_network = js ''Network error '' @ em_dash @ js '' please try again later.''"

definition msg_newsletter_failed :: jsstring where
  "msg_newsletter_failed = js ''Subscription failed '' @ em_dash @ js '' please try again.''"

text \<open>The submit handler of the newsletter form, up to its first \<^verbatim>\<open>await\<close>.\<close>

definition newsletter_submit :: "env \<Rightarrow> progress js_run" where
  "newsletter_submit env p =
     (case newsletter_email p of
        None \<Rightarrow> (Normal Absent, p)
      | Some emailInput \<Rightarrow>
          (let email = trim (input_value emailInput) in
           if \<not> isEmailValid email then
             (Normal Invalid,
              (show_feedback_alert msg_newsletter_invalid p)\<lparr>newsletter_email_focused := True\<rparr>)
           else if \<not> truthy (EMAILJS_SERVICE_ID env) \<and> \<not> truthy (FORMSPREE_ENDPOINT env) then
             (Normal (Done Success), newsletter_reset (show_feedback msg_newsletter_demo p))
           else if truthy (FORMSPREE_ENDPOINT env) then
             (Normal (Pending (AwaitFetch (FORMSPREE_ENDPOINT env) ''POST''
                        [(''Accept'', ''application/json'')] [(''email'', email)])), p)
           else if truthy (EMAILJS_SERVICE_ID env) \<and> window_emailjs env then
             (Normal (Pending (AwaitEmailjsSend (EMAILJS_SERVICE_ID env) (EMAILJS_TEMPLATE_ID env)
                        [(''email'', email)] (EMAILJS_PUBLIC_KEY env))), p)
           else (Normal Dropped, p)))"

text \<open>The rest of the handler, run when \<^verbatim>\<open>fetch\<close> settles.\<close>

definition newsletter_fetch_settled :: "nat settled \<Rightarrow> outcome js_run" where
  "newsletter_fetch_settled r =
     try_catch
       (then_js (await_js r) (\<lambda>resp.
          if resp_ok resp then
            then_js (modify (show_feedback msg_newsletter_subscribed)) (\<lambda>_.
            then_js (modify newsletter_reset) (\<lambda>_. return Success))
          else
            then_js (modify (show_feedback msg_newsletter_failed_later)) (\<lambda>_.
            return (ServiceFailure msg_newsletter_failed_later))))
       (\<lambda>err. then_js (modify (show_feedback msg_newsletter_network)) (\<lambda>_.
               return (NetworkFailure msg_newsletter_network)))"

text \<open>The rest of the handler, run when \<^verbatim>\<open>window.emailjs.send\<close> settles.\<close>

definition newsletter_emailjs_settled :: "unit settled \<Rightarrow> outcome js_run" where
  "newsletter_emailjs_settled r =
     try_catch
       (then_js (await_js r) (\<lambda>_.
        then_js (modify (show_feedback msg_newsletter_subscribed)) (\<lambda>_.
        then_js (modify newsletter_reset) (\<lambda>_. return Success))))
       (\<lambda>err. then_js (modify (show_feedback msg_newsletter_failed)) (\<lambda>_.
               return (ServiceFailure msg_newsletter_failed)))"

subsection \<open>The contact form\<close>

definition msg_contact_required :: jsstring where
  "msg_contact_required = js ''Please complete the required fields.''"

definition msg_contact_emailjs_failed :: jsstring where
  "msg_contact_emailjs_failed =
     js ''Please try again or email hello@asababusinesscommunity.com''"

definition msg_contact_failed :: jsstring where
  "msg_contact_failed = js ''Submission failed '' @ em_dash @ js '' please try again later.''"

definition msg_contact_network :: jsstring where
  "msg_contact_network = js ''Network error '' @ em_dash @ js '' try again later.''"

text \<open>\<^verbatim>\<open>el && el.classList.add('is-invalid')\<close>, or \<^verbatim>\<open>remove\<close>.\<close>

definition set_invalid :: "field_id \<Rightarrow> bool \<Rightarrow> page \<Rightarrow> page" where
  "set_invalid f b p =
     (case contact_field p f of
        None \<Rightarrow> p
      | Some el \<Rightarrow> p\<lparr>contact_field := (contact_field p)(f \<mapsto> el\<lparr>is_invalid := b\<rparr>)\<rparr>)"

text \<open>\<^verbatim>\<open>!el || !el.value.trim()\<close>\<close>

definition blank :: "field_id \<Rightarrow> page \<Rightarrow> bool" where
  "blank f p = (case contact_field p f of None \<Rightarrow> True | Some el \<Rightarrow> \<not> truthy (trim (input_value el)))"

text \<open>\<^verbatim>\<open>!email || !isEmailValid(email.value.trim())\<close>\<close>

definition bad_email :: "page \<Rightarrow> bool" where
  "bad_email p =
     (case contact_field p Email of None \<Rightarrow> True | Some el \<Rightarrow> \<not> isEmailValid (trim (input_value el)))"

text \<open>
  The four checks of the handler, in the order of the source; each marks or unmarks its
  field, and \<^verbatim>\<open>valid\<close> ends false when any check failed.
\<close>

definition validate :: "bool js_run" where
  "validate p0 =
     (let b1 = blank Name p0; p1 = set_invalid Name b1 p0;
          b2 = bad_email p1; p2 = set_invalid Email b2 p1;
          b3 = blank Subject p2; p3 = set_invalid Subject b3 p2;
          b4 = blank Message p3; p4 = set_invalid Message b4 p3
      in (Normal (\<not> b1 \<and> \<not> b2 \<and> \<not> b3 \<and> \<not> b4), p4))"

text \<open>The branch \<^verbatim>\<open>if (!valid)\<close>: the error banner is shown with a plain text.\<close>

definition announce_invalid :: "page \<Rightarrow> page" where
  "announce_invalid p =
     p\<lparr>contact_error :=
         map_option (\<lambda>el. el\<lparr>d_none := False, body := NoStrong msg_contact_required\<rparr>)
           (contact_error p)\<rparr>"

text \<open>\<^verbatim>\<open>(el && el.value.trim()) || ''\<close> and \<^verbatim>\<open>(el && el.value) || ''\<close>\<close>

definition optional_trimmed :: "field_id \<Rightarrow> page \<Rightarrow> jsstring" where
  "optional_trimmed f p =
     (case contact_field p f of None \<Rightarrow> [] | Some el \<Rightarrow> trim (input_value el))"

definition optional_raw :: "field_id \<Rightarrow> page \<Rightarrow> jsstring" where
  "optional_raw f p = (case contact_field p f of None \<Rightarrow> [] | Some el \<Rightarrow> input_value el)"

text \<open>
  The payload. Reading \<^verbatim>\<open>.value\<close> of a required element that is not in the page would
  throw; the handler gets here only after the four checks passed.
\<close>

definition build_payload :: "params js_run" where
  "build_payload p =
     (case (contact_field p Name, contact_field p Email, contact_field p Subject,
            contact_field p Message) of
        (Some name, Some email, Some subject, Some message) \<Rightarrow>
          (Normal
             [(''name'', trim (input_value name)),
              (''email'', trim (input_value email)),
              (''phone'', optional_trimmed Phone p),
              (''company'', optional_trimmed Company p),
              (''subject'', trim (input_value subject)),
              (''message'', trim (input_value message)),
              (''ref'', optional_raw Ref p)], p)
      | _ \<Rightarrow> (Throw TypeError, p))"

text \<open>The submit handler of the contact form, up to its first \<^verbatim>\<open>await\<close> or its timer.\<close>

definition contact_submit :: "env \<Rightarrow> progress js_run" where
  "contact_submit env =
     then_js (toggleAlert ContactSuccess False []) (\<lambda>_.
     then_js (toggleAlert ContactError False []) (\<lambda>_.
     then_js validate (\<lambda>valid.
       if \<not> valid then then_js (modify announce_invalid) (\<lambda>_. return Invalid)
       else
         then_js build_payload (\<lambda>payload.
         then_js (modify (showSpinner True)) (\<lambda>_.
           if truthy (EMAILJS_SERVICE_ID env) \<and> window_emailjs env then
             return (Pending (AwaitEmailjsSend (EMAILJS_SERVICE_ID env) (EMAILJS_TEMPLATE_ID env)
                       payload (EMAILJS_PUBLIC_KEY env)))
           else if truthy (FORMSPREE_ENDPOINT env) then
             return (Pending (AwaitFetch (FORMSPREE_ENDPOINT env) ''POST''
                       [(''Accept'', ''application/json''),
                        (''Content-Type'', ''application/json'')] payload))
           else return (Pending (AwaitTimeout 800)))))))"

text \<open>The EmailJS branch after its \<^verbatim>\<open>await\<close>: try, catch, finally.\<close>

definition contact_emailjs_settled :: "unit settled \<Rightarrow> outcome js_run" where
  "contact_emailjs_settled r =
     try_finally
       (try_catch
          (then_js (await_js r) (\<lambda>_.
           then_js (toggleAlert ContactSuccess True []) (\<lambda>_.
           then_js (modify form_reset) (\<lambda>_. return Success))))
          (\<lambda>err. then_js (toggleAlert ContactError True msg_contact_emailjs_failed) (\<lambda>_.
                  return (ServiceFailure msg_contact_emailjs_failed))))
       (modify (showSpinner False))"

text \<open>The Formspree branch after its \<^verbatim>\<open>await\<close>: try, catch, finally.\<close>

definition contact_fetch_settled :: "nat settled \<Rightarrow> outcome js_run" where
  "contact_fetch_settled r =
     try_finally
       (try_catch
          (then_js (await_js r) (\<lambda>resp.
             if resp_ok resp then
               then_js (toggleAlert ContactSuccess True []) (\<lambda>_.
               then_js (modify form_reset) (\<lambda>_. return Success))
             else
               then_js (toggleAlert ContactError True msg_contact_failed) (\<lambda>_.
               return (ServiceFailure msg_contact_failed))))
          (\<lambda>err. then_js (toggleAlert ContactError True msg_contact_network) (\<lambda>_.
                  return (NetworkFailure msg_contact_network))))
       (modify (showSpinner False))"

text \<open>The callback of the demo mode's timer.\<close>

definition contact_timer_fired :: "outcome js_run" where
  "contact_timer_fired =
     then_js (toggleAlert ContactSuccess True []) (\<lambda>_.
     then_js (modify form_reset) (\<lambda>_.
     then_js (modify (showSpinner False)) (\<lambda>_. return Success)))"

subsection \<open>Events\<close>

text \<open>
  The page's event loop. A handler runs to its first \<^verbatim>\<open>await\<close> (or to its end); the
  awaited operation is then in flight, each with the form it belongs to and the time it
  was started, until it settles and the rest of the handler runs. An exception that
  leaves a handler is recorded: nothing in the page catches it.
\<close>

datatype form = Contact | Newsletter

record task =
  owner :: form
  waits :: awaiting
  since :: nat

record world =
  doc :: page
  tasks :: "task list"
  clock :: nat
  uncaught :: "exn list"

text \<open>How an operation in flight ends: EmailJS or \<^verbatim>\<open>fetch\<close> settles, or the timer fires.\<close>

datatype result = EmailjsResult "unit settled" | FetchResult "nat settled" | TimerResult

text \<open>
  The rest of the handler that waits for an operation, for a result of the operation's
  kind. The newsletter handler sets no timer.
\<close>

fun continuation :: "form \<Rightarrow> awaiting \<Rightarrow> result \<Rightarrow> outcome js_run option" where
  "continuation Contact (AwaitEmailjsSend _ _ _ _) (EmailjsResult r) = Some (contact_emailjs_settled r)"
| "continuation Contact (AwaitFetch _ _ _ _) (FetchResult r) = Some (contact_fetch_settled r)"
| "continuation Contact (AwaitTimeout _) TimerResult = Some contact_timer_fired"
| "continuation Newsletter (AwaitEmailjsSend _ _ _ _) (EmailjsResult r) = Some (newsletter_emailjs_settled r)"
| "continuation Newsletter (AwaitFetch _ _ _ _) (FetchResult r) = Some (newsletter_fetch_settled r)"
| "continuation _ _ _ = None"

text \<open>
  \<open>Submit\<close> is a submit event reaching the form's handler, however it was caused.
  \<open>UserSubmit\<close> is the user activating the form's submit control: the browser does not
  let a disabled control submit. \<open>Settled i r\<close> ends the \<open>i\<close>-th operation in flight
  with the result \<open>r\<close>. The clock counts milliseconds and \<open>Tick\<close> advances it; a timer
  fires no earlier than its delay after it was set.
\<close>

datatype event =
    Submit form
  | UserSubmit form
  | Settled nat result
  | Tick nat

definition user_can_submit :: "form \<Rightarrow> page \<Rightarrow> bool" where
  "user_can_submit f p =
     (case f of Contact \<Rightarrow> contact_submit_disabled p \<noteq> Some True | Newsletter \<Rightarrow> True)"

definition submit_handler :: "form \<Rightarrow> env \<Rightarrow> progress js_run" where
  "submit_handler f env = (case f of Contact \<Rightarrow> contact_submit env | Newsletter \<Rightarrow> newsletter_submit env)"

definition dispatch_submit :: "env \<Rightarrow> form \<Rightarrow> world \<Rightarrow> world" where
  "dispatch_submit env f w =
     (case submit_handler f env (doc w) of
        (Normal (Pending a), p') \<Rightarrow>
          w\<lparr>doc := p', tasks := tasks w @ [\<lparr>owner = f, waits = a, since = clock w\<rparr>]\<rparr>
      | (Normal _, p') \<Rightarrow> w\<lparr>doc := p'\<rparr>
      | (Throw e, p') \<Rightarrow> w\<lparr>doc := p', uncaught := uncaught w @ [e]\<rparr>)"

definition remove_nth :: "nat \<Rightarrow> 'a list \<Rightarrow> 'a list" where
  "remove_nth i xs = take i xs @ drop (Suc i) xs"

definition resume :: "outcome js_run \<Rightarrow> nat \<Rightarrow> world \<Rightarrow> world" where
  "resume k i w =
     (case k (doc w) of
        (Normal _, p') \<Rightarrow> w\<lparr>doc := p', tasks := remove_nth i (tasks w)\<rparr>
      | (Throw e, p') \<Rightarrow> w\<lparr>doc := p', tasks := remove_nth i (tasks w), uncaught := uncaught w @ [e]\<rparr>)"

definition due :: "task \<Rightarrow> nat \<Rightarrow> bool" where
  "due t now = (case waits t of AwaitTimeout ms \<Rightarrow> since t + ms \<le> now | _ \<Rightarrow> True)"

text \<open>An event that cannot happen in the given world is \<open>None\<close>.\<close>

definition step :: "env \<Rightarrow> event \<Rightarrow> world \<Rightarrow> world option" where
  "step env ev w =
     (case ev of
        Submit f \<Rightarrow> Some (dispatch_submit env f w)
      | UserSubmit f \<Rightarrow>
          if user_can_submit f (doc w) then Some (dispatch_submit env f w) else None
      | Settled i r \<Rightarrow>
          if i < length (tasks w) \<and> due (tasks w ! i) (clock w) then
            (case continuation (owner (tasks w ! i)) (waits (tasks w ! i)) r of
               None \<Rightarrow> None
             | Some k \<Rightarrow> Some (resume k i w))
          else None
      | Tick n \<Rightarrow> Some (w\<lparr>clock := clock w + n\<rparr>))"

fun run :: "env \<Rightarrow> event list \<Rightarrow> world \<Rightarrow> world option" where
  "run env [] w = Some w"
| "run env (ev # evs) w = (case step env ev w of None \<Rightarrow> None | Some w' \<Rightarrow> run env evs w')"

text \<open>The operations of one form that are in flight.\<close>

definition in_flight :: "form \<Rightarrow> world \<Rightarrow> task list" where
  "in_flight f w = filter (\<lambda>t. owner t = f) (tasks w)"

text \<open>Whether a banner is in the page and shown.\<close>

definition visible :: "banner option \<Rightarrow> bool" where
  "visible b = (case b of None \<Rightarrow> False | Some el \<Rightarrow> \<not> d_none el)"

subsection \<open>The specification's strategy selection\<close>

text \<open>
  The selection as the specification words it: the mail relay when each of its three
  strings is non-empty and the mail client is available, otherwise the form relay when
  its endpoint is non-empty, otherwise the demo strategy.
\<close>

definition stated_select :: "env \<Rightarrow> strategy" where
  "stated_select env =
     (if truthy (EMAILJS_SERVICE_ID env) \<and> truthy (EMAILJS_TEMPLATE_ID env) \<and>
         truthy (EMAILJS_PUBLIC_KEY env) \<and> window_emailjs env then MailRelayStrategy
      else if truthy (FORMSPREE_ENDPOINT env) then FormRelayStrategy
      else DemoStrategy)"

subsection \<open>Notions used to state the properties\<close>

text \<open>The input of a form passes the handler's checks.\<close>

definition contact_valid :: "page \<Rightarrow> bool" where
  "contact_valid p \<longleftrightarrow>
     \<not> blank Name p \<and> \<not> bad_email p \<and> \<not> blank Subject p \<and> \<not> blank Message p"

definition newsletter_valid :: "page \<Rightarrow> bool" where
  "newsletter_valid p \<longleftrightarrow>
     (case newsletter_email p of None \<Rightarrow> False | Some el \<Rightarrow> isEmailValid (trim (input_value el)))"

text \<open>The strategy a submit event makes the form's handler use, if it uses one.\<close>

definition selected :: "form \<Rightarrow> env \<Rightarrow> page \<Rightarrow> strategy option" where
  "selected f env p =
     (case fst (submit_handler f env p) of Normal g \<Rightarrow> strategy_of g | Throw e \<Rightarrow> None)"

text \<open>
  A banner can take a message: it is not in the page, or it has no \<^verbatim>\<open>strong\<close> element,
  or its \<^verbatim>\<open>strong\<close> element is followed by a node.
\<close>

definition takes_message :: "banner option \<Rightarrow> bool" where
  "takes_message b = (case b of None \<Rightarrow> True | Some el \<Rightarrow> body el \<noteq> StrongLast)"

text \<open>A field of the contact form is in the page and marked invalid.\<close>

definition marked :: "page \<Rightarrow> field_id \<Rightarrow> bool" where
  "marked p f = (case contact_field p f of None \<Rightarrow> False | Some el \<Rightarrow> is_invalid el)"

text \<open>The value of a field of the contact form, when the field is in the page.\<close>

definition value_of :: "page \<Rightarrow> field_id \<Rightarrow> jsstring option" where
  "value_of p f = map_option input_value (contact_field p f)"

definition required :: "field_id list" where
  "required = [Name, Email, Subject, Message]"

definition both_banners_visible :: "page \<Rightarrow> bool" where
  "both_banners_visible p \<longleftrightarrow> visible (contact_success p) \<and> visible (contact_error p)"

text \<open>
  The busy guard of the contact form: the submit control is in the page, it is disabled
  exactly when an operation of the contact form is in flight, and at most one is.
\<close>

definition busy_guard :: "world \<Rightarrow> bool" where
  "busy_guard w \<longleftrightarrow>
     contact_submit_disabled (doc w) = Some (in_flight Contact w \<noteq> []) \<and>
     length (in_flight Contact w) \<le> 1"

text \<open>The page after the contact handler hid both banners and ran its four checks.\<close>

definition after_checks :: "page \<Rightarrow> page" where
  "after_checks p =
     snd (validate (snd (toggleAlert ContactError False []
                      (snd (toggleAlert ContactSuccess False [] p)))))"

text \<open>The operation the contact handler starts for a payload.\<close>

definition contact_send :: "env \<Rightarrow> params \<Rightarrow> awaiting" where
  "contact_send env payload =
     (if truthy (EMAILJS_SERVICE_ID env) \<and> window_emailjs env then
        AwaitEmailjsSend (EMAILJS_SERVICE_ID env) (EMAILJS_TEMPLATE_ID env) payload
          (EMAILJS_PUBLIC_KEY env)
      else if truthy (FORMSPREE_ENDPOINT env) then
        AwaitFetch (FORMSPREE_ENDPOINT env) ''POST''
          [(''Accept'', ''application/json''), (''Content-Type'', ''application/json'')] payload
      else AwaitTimeout 800)"

text \<open>
  The page after the successful branch of a contact handler (success banner, reset,
  spinner off), and after a failing branch that shows the message \<open>m\<close>.
\<close>

definition show_success :: "page \<Rightarrow> page" where
  "show_success p = showSpinner False (form_reset (snd (toggleAlert ContactSuccess True [] p)))"

definition show_error :: "jsstring \<Rightarrow> page \<Rightarrow> page" where
  "show_error m p = showSpinner False (snd (toggleAlert ContactError True m p))"

text \<open>The contact form is busy: its submit control is disabled or its spinner is shown.\<close>

definition busy :: "page \<Rightarrow> bool" where
  "busy p \<longleftrightarrow> contact_submit_disabled p = Some True \<or> contact_spinner_d_none p = Some False"

text \<open>The default value of a field of the contact form, when the field is in the page.\<close>

definition default_of :: "page \<Rightarrow> field_id \<Rightarrow> jsstring option" where
  "default_of p f = map_option default_value (contact_field p f)"

text \<open>
  At most one banner is visible, and none while an operation of the contact form is in
  flight.
\<close>

definition banner_guard :: "world \<Rightarrow> bool" where
  "banner_guard w \<longleftrightarrow>
     \<not> both_banners_visible (doc w) \<and>
     (in_flight Contact w \<noteq> [] \<longrightarrow>
        \<not> visible (contact_success (doc w)) \<and> \<not> visible (contact_error (doc w)))"

subsection \<open>Example configurations and pages\<close>

definition env_none :: env where
  "env_none = \<lparr>EMAILJS_SERVICE_ID = [], EMAILJS_TEMPLATE_ID = [], EMAILJS_PUBLIC_KEY = [],
               FORMSPREE_ENDPOINT = [], window_emailjs = False\<rparr>"

definition env_service_only :: env where
  "env_service_only = env_none\<lparr>EMAILJS_SERVICE_ID := js ''service_1'', window_emailjs := True\<rparr>"

definition env_formspree :: env where
  "env_formspree = env_none\<lparr>FORMSPREE_ENDPOINT := js ''https://formspree.io/f/x''\<rparr>"

definition env_both :: env where
  "env_both = \<lparr>EMAILJS_SERVICE_ID = js ''service_1'', EMAILJS_TEMPLATE_ID = js ''template_1'',
               EMAILJS_PUBLIC_KEY = js ''key_1'',
               FORMSPREE_ENDPOINT = js ''https://formspree.io/f/x'', window_emailjs = True\<rparr>"

definition text_input :: "jsstring \<Rightarrow> input" where
  "text_input v = \<lparr>input_value = v, default_value = [], is_invalid = False\<rparr>"

definition hidden_banner :: banner where
  "hidden_banner = \<lparr>d_none = True, aria_hidden = Some (js ''true''), body = StrongThen (js '' ...'')\<rparr>"

text \<open>A page with both forms filled in; the hidden field \<^verbatim>\<open>ref\<close> starts with a blank.\<close>

definition filled_fields :: "field_id \<Rightarrow> input option" where
  "filled_fields f =
     Some (text_input
       (case f of Name \<Rightarrow> js '' Ada '' | Email \<Rightarrow> js ''a@b.co'' | Phone \<Rightarrow> js '' 123''
        | Company \<Rightarrow> [] | Subject \<Rightarrow> js ''Hello'' | Message \<Rightarrow> js ''Good day.''
        | Ref \<Rightarrow> js '' x''))"

definition filled_page :: page where
  "filled_page =
     \<lparr>contact_success = Some hidden_banner, contact_error = Some hidden_banner,
      contact_field = filled_fields,
      contact_submit_disabled = Some False, contact_spinner_d_none = Some True,
      newsletter_email = Some (text_input (js ''a@b.co'')),
      newsletter_feedback = Some \<lparr>visually_hidden = True, textContent = [], role = None\<rparr>,
      newsletter_email_focused = False\<rparr>"

text \<open>The same page with the forms left empty.\<close>

definition empty_page :: page where
  "empty_page = filled_page\<lparr>contact_field := (\<lambda>f. Some (text_input [])),
                            newsletter_email := Some (text_input [])\<rparr>"

definition idle_world :: "page \<Rightarrow> world" where
  "idle_world p = \<lparr>doc = p, tasks = [], clock = 0, uncaught = []\<rparr>"

text \<open>The filled page with both banners left visible by earlier submissions.\<close>

definition stale_page :: page where
  "stale_page =
     filled_page\<lparr>contact_success := Some (hidden_banner\<lparr>d_none := False\<rparr>),
                 contact_error := Some (hidden_banner\<lparr>d_none := False\<rparr>)\<rparr>"

text \<open>The world after a submit event of the contact form on the filled page.\<close>

definition submitted_world :: "env \<Rightarrow> world" where
  "submitted_world env = dispatch_submit env Contact (idle_world filled_page)"

text \<open>
  The filled page with an error banner whose \<^verbatim>\<open>strong\<close> element is its last child, as in
  \<^verbatim>\<open><div id="contact-error" class="d-none"><strong>Error</strong></div>\<close>.
\<close>

definition strong_last_page :: page where
  "strong_last_page = filled_page\<lparr>contact_error := Some (hidden_banner\<lparr>body := StrongLast\<rparr>)\<rparr>"

text \<open>
  The filled page with a name input that carries a \<^verbatim>\<open>value\<close> attribute, as in
  \<^verbatim>\<open><input id="name" value="Bob">\<close>, into which the user typed another name.
\<close>

definition prefilled_page :: page where
  "prefilled_page =
     filled_page\<lparr>contact_field :=
       filled_fields(Name \<mapsto> \<lparr>input_value = js ''Ada'', default_value = js ''Bob'',
                                is_invalid = False\<rparr>)\<rparr>"

text \<open>The filled page without an element of the id \<^verbatim>\<open>contact-submit\<close>.\<close>

definition no_button_page :: page where
  "no_button_page = filled_page\<lparr>contact_submit_disabled := None\<rparr>"

text \<open>
  No backend is configured, as the specification words it: a backend is configured when
  all its strings are non-empty, so none is when one of the three EmailJS strings is empty
  and the endpoint is empty.
\<close>

definition stated_no_backend :: "env \<Rightarrow> bool" where
  "stated_no_backend env \<longleftrightarrow>
     \<not> (truthy (EMAILJS_SERVICE_ID env) \<and> truthy (EMAILJS_TEMPLATE_ID env) \<and>
        truthy (EMAILJS_PUBLIC_KEY env)) \<and>
     \<not> truthy (FORMSPREE_ENDPOINT env)"

text \<open>A character that \<^verbatim>\<open>[^\s@]\<close> matches.\<close>

definition plain :: "16 word \<Rightarrow> bool" where
  "plain c \<longleftrightarrow> \<not> is_space c \<and> c \<noteq> at_sign"

section \<open>Properties\<close>

subsection \<open>The e-mail check\<close>

lemma lower_unit_space: "is_space (lower_unit c) = is_space c"
  unfolding lower_unit_def is_space_def
  by (simp add: word_le_nat_alt word_eq_iff_unsigned[where ?'a=nat] unat_word_ariths)

lemma lower_unit_at: "lower_unit c = at_sign \<longleftrightarrow> c = at_sign"
  unfolding lower_unit_def
  by (simp add: word_le_nat_alt word_eq_iff_unsigned[where ?'a=nat] unat_word_ariths)

lemma lower_unit_dot: "lower_unit c = full_stop \<longleftrightarrow> c = full_stop"
  unfolding lower_unit_def
  by (simp add: word_le_nat_alt word_eq_iff_unsigned[where ?'a=nat] unat_word_ariths)

lemma at_not_space: "\<not> is_space at_sign"
  by (simp add: is_space_def)

lemma dot_not_space: "\<not> is_space full_stop"
  by (simp add: is_space_def)

lemma cmatch_plain: "cmatch (NoneOf [Space, Ch at_sign]) c = plain c"
  by (simp add: plain_def)

text \<open>Lower-casing does not change what a pattern matches when it does not change its classes.\<close>

lemma matches_lower:
  assumes "\<forall>i\<in>set r. \<forall>c. (case i of Once k \<Rightarrow> cmatch k (lower_unit c) = cmatch k c
                                 | OneOrMore k \<Rightarrow> cmatch k (lower_unit c) = cmatch k c)"
  shows "matches r (map lower_unit s) = matches r s"
  using assms by (induction r s rule: matches.induct) auto

lemma isEmailValid_regex: "isEmailValid s = matches email_regex s"
  unfolding isEmailValid_def toLowerCase_def
  by (rule matches_lower)
     (simp add: email_regex_def lower_unit_space lower_unit_at lower_unit_dot)

text \<open>An item with \<^verbatim>\<open>+\<close> takes a non-empty prefix of its class.\<close>

lemma matches_OneOrMore:
  "matches (OneOrMore k # r) s \<longleftrightarrow>
     (\<exists>u v. s = u @ v \<and> u \<noteq> [] \<and> list_all (cmatch k) u \<and> matches r v)"
proof (induction s)
  case Nil
  then show ?case by simp
next
  case (Cons c cs)
  show ?case
  proof
    assume m: "matches (OneOrMore k # r) (c # cs)"
    then have c: "cmatch k c" by simp
    from m consider "matches (OneOrMore k # r) cs" | "matches r cs" by auto
    then show "\<exists>u v. c # cs = u @ v \<and> u \<noteq> [] \<and> list_all (cmatch k) u \<and> matches r v"
    proof cases
      case 1
      with Cons.IH obtain u v where "cs = u @ v" "list_all (cmatch k) u" "matches r v" by blast
      with c have "c # cs = (c # u) @ v \<and> c # u \<noteq> [] \<and> list_all (cmatch k) (c # u) \<and> matches r v"
        by simp
      then show ?thesis by blast
    next
      case 2
      with c have "c # cs = [c] @ cs \<and> [c] \<noteq> [] \<and> list_all (cmatch k) [c] \<and> matches r cs"
        by simp
      then show ?thesis by blast
    qed
  next
    assume "\<exists>u v. c # cs = u @ v \<and> u \<noteq> [] \<and> list_all (cmatch k) u \<and> matches r v"
    then obtain u v where uv: "c # cs = u @ v" "u \<noteq> []" "list_all (cmatch k) u" "matches r v"
      by blast
    then obtain u' where u: "u = c # u'" by (cases u) auto
    with uv have cs: "cs = u' @ v" and c: "cmatch k c" and u': "list_all (cmatch k) u'" by auto
    show "matches (OneOrMore k # r) (c # cs)"
    proof (cases u')
      case Nil
      with cs uv c show ?thesis by simp
    next
      case (Cons a list)
      with cs u' uv(4) Cons.IH have "matches (OneOrMore k # r) cs" by blast
      with c show ?thesis by simp
    qed
  qed
qed

lemma matches_Once:
  "matches (Once k # r) s \<longleftrightarrow> (\<exists>c v. s = c # v \<and> cmatch k c \<and> matches r v)"
  by (cases s) auto

text \<open>The strings the pattern matches: \<open>l @ d . e\<close> with three non-empty plain parts.\<close>

lemma matches_email_shape:
  "matches email_regex s \<longleftrightarrow>
     (\<exists>l d e. s = l @ at_sign # d @ full_stop # e \<and> l \<noteq> [] \<and> d \<noteq> [] \<and> e \<noteq> [] \<and>
        list_all plain l \<and> list_all plain d \<and> list_all plain e)"
  (is "?L \<longleftrightarrow> ?R")
proof
  assume ?L
  then obtain l v1 where 1: "s = l @ v1" "l \<noteq> []" "list_all plain l"
      "matches [Once (Lit at_sign), OneOrMore (NoneOf [Space, Ch at_sign]), Once (Lit full_stop),
                OneOrMore (NoneOf [Space, Ch at_sign])] v1"
    unfolding email_regex_def matches_OneOrMore[of _ "Once (Lit at_sign) # _"] cmatch_plain by blast
  then obtain v2 where 2: "v1 = at_sign # v2"
      "matches [OneOrMore (NoneOf [Space, Ch at_sign]), Once (Lit full_stop),
                OneOrMore (NoneOf [Space, Ch at_sign])] v2"
    unfolding matches_Once by auto
  then obtain d v3 where 3: "v2 = d @ v3" "d \<noteq> []" "list_all plain d"
      "matches [Once (Lit full_stop), OneOrMore (NoneOf [Space, Ch at_sign])] v3"
    unfolding matches_OneOrMore[of _ "Once (Lit full_stop) # _"] cmatch_plain by blast
  then obtain v4 where 4: "v3 = full_stop # v4" "matches [OneOrMore (NoneOf [Space, Ch at_sign])] v4"
    unfolding matches_Once by auto
  then obtain e v5 where 5: "v4 = e @ v5" "e \<noteq> []" "list_all plain e" "matches [] v5"
    unfolding matches_OneOrMore[of _ "[]"] cmatch_plain by blast
  then have "v5 = []" by simp
  with 1 2 3 4 5 show ?R by auto
next
  assume ?R
  then obtain l d e where s: "s = l @ at_sign # d @ full_stop # e" "l \<noteq> []" "d \<noteq> []" "e \<noteq> []"
      "list_all plain l" "list_all plain d" "list_all plain e" by blast
  have "matches [OneOrMore (NoneOf [Space, Ch at_sign])] e"
    unfolding matches_OneOrMore cmatch_plain using s by auto
  then have "matches [Once (Lit full_stop), OneOrMore (NoneOf [Space, Ch at_sign])] (full_stop # e)"
    by simp
  then have "matches [OneOrMore (NoneOf [Space, Ch at_sign]), Once (Lit full_stop),
                OneOrMore (NoneOf [Space, Ch at_sign])] (d @ full_stop # e)"
    unfolding matches_OneOrMore[of _ "Once (Lit full_stop) # _"] cmatch_plain using s by blast
  then have "matches [Once (Lit at_sign), OneOrMore (NoneOf [Space, Ch at_sign]), Once (Lit full_stop),
                OneOrMore (NoneOf [Space, Ch at_sign])] (at_sign # d @ full_stop # e)"
    by simp
  then show ?L
    unfolding email_regex_def matches_OneOrMore[of _ "Once (Lit at_sign) # _"] cmatch_plain
    using s by blast
qed

lemma plain_no_at: "list_all plain l \<Longrightarrow> at_sign \<notin> set l"
  by (auto simp: list_all_iff plain_def)

lemma count_list_absent: "a \<notin> set l \<Longrightarrow> count_list l a = 0"
  by (induction l) auto

lemma shape_rule:
  assumes s: "s = l @ at_sign # d @ full_stop # e" and ne: "l \<noteq> []" "d \<noteq> []" "e \<noteq> []"
    and pl: "list_all plain l" "list_all plain d" "list_all plain e"
  shows "email_rule s"
proof -
  have nat: "at_sign \<notin> set l" "at_sign \<notin> set d" "at_sign \<notin> set e"
    using pl by (simp_all add: plain_no_at)
  have sp: "\<not> list_ex is_space s"
    using pl unfolding s
    by (auto simp: list_ex_iff list_all_iff plain_def at_not_space dot_not_space)
  have cnt: "count_list s at_sign = 1"
    unfolding s using nat by (simp add: count_list_absent)
  have tw: "takeWhile (\<lambda>c. c \<noteq> at_sign) s = l"
    unfolding s using nat by (subst takeWhile_append2) auto
  have dw: "dropWhile (\<lambda>c. c \<noteq> at_sign) s = at_sign # d @ full_stop # e"
    unfolding s using nat by (subst dropWhile_append2) auto
  obtain x d' where d: "d = x # d'" using ne by (cases d) auto
  have "butlast (tl (d @ full_stop # e)) = d' @ full_stop # butlast e"
    using ne d by (simp add: butlast_append)
  then have "inner_dot (domain_part s)"
    by (simp add: inner_dot_def domain_part_def dw)
  with sp cnt tw ne show ?thesis
    by (simp add: email_rule_def local_part_def)
qed

lemma rule_shape:
  assumes "email_rule s"
  shows "\<exists>l d e. s = l @ at_sign # d @ full_stop # e \<and> l \<noteq> [] \<and> d \<noteq> [] \<and> e \<noteq> [] \<and>
        list_all plain l \<and> list_all plain d \<and> list_all plain e"
proof -
  let ?P = "\<lambda>c. c \<noteq> at_sign"
  define l where "l = takeWhile ?P s"
  define m where "m = domain_part s"
  from assms have sp: "\<forall>c\<in>set s. \<not> is_space c" and cnt: "count_list s at_sign = 1"
    and lne: "l \<noteq> []" and dot: "full_stop \<in> set (butlast (tl m))"
    by (auto simp: email_rule_def list_ex_iff local_part_def l_def m_def inner_dot_def)
  have "at_sign \<in> set s"
    using cnt count_list_absent[of at_sign s] by auto
  then have "dropWhile ?P s \<noteq> []" by (auto simp: dropWhile_eq_Nil_conv)
  then obtain y where dw: "dropWhile ?P s = y # m"
    by (cases "dropWhile ?P s") (auto simp: m_def domain_part_def)
  have "y = hd (dropWhile ?P s)" using dw by simp
  then have y: "y = at_sign" using hd_dropWhile[of ?P s] \<open>dropWhile ?P s \<noteq> []\<close> by auto
  have s: "s = l @ at_sign # m"
    using takeWhile_dropWhile_id[of ?P s] dw y by (simp add: l_def)
  have lat: "at_sign \<notin> set l"
    unfolding l_def by (auto dest: set_takeWhileD)
  have "count_list s at_sign = count_list l at_sign + 1 + count_list m at_sign"
    unfolding s by simp
  with cnt lat have "count_list m at_sign = 0" by (simp add: count_list_absent)
  then have mat: "at_sign \<notin> set m" by (simp add: count_list_0_iff)
  from dot obtain a b where ab: "butlast (tl m) = a @ full_stop # b"
    by (auto simp: in_set_conv_decomp)
  then have tne: "tl m \<noteq> []" by auto
  then have tl: "tl m = a @ full_stop # b @ [last (tl m)]"
    using append_butlast_last_id[of "tl m"] ab by simp
  from tne obtain x where m: "m = x # tl m" by (cases m) auto
  define d where "d = x # a"
  define e where "e = b @ [last (tl m)]"
  have md: "m = d @ full_stop # e" using m tl by (simp add: d_def e_def)
  have "s = l @ at_sign # d @ full_stop # e" using s md by simp
  moreover have "d \<noteq> []" "e \<noteq> []" by (simp_all add: d_def e_def)
  moreover have "list_all plain l" using sp lat s by (auto simp: list_all_iff plain_def)
  moreover have "list_all plain d" "list_all plain e"
    using sp mat s md by (auto simp: list_all_iff plain_def)
  ultimately show ?thesis using lne by blast
qed

lemma isEmailValid_email_rule: "isEmailValid s \<longleftrightarrow> email_rule s"
  unfolding isEmailValid_regex matches_email_shape
  using shape_rule rule_shape by blast

lemmas email_eval =
  isEmailValid_def email_regex_def toLowerCase_def lower_unit_def js_def is_space_def

text \<open>
  C5, as stated, fails: in \<^verbatim>\<open>a@.co\<close> there is no white space, one \<^verbatim>\<open>@\<close> after a
  non-empty local part, and a domain part \<^verbatim>\<open>.co\<close> that contains a full stop followed by
  a run of characters; the regular expression wants a character between the \<^verbatim>\<open>@\<close>
  and the full stop and refuses the string.
\<close>

theorem isEmailValid_stated_rule_counterexample:
  "\<not> (isEmailValid (js ''a@.co'') \<longleftrightarrow> stated_email_rule (js ''a@.co''))"
  by (simp add: stated_email_rule_def local_part_def domain_part_def email_eval)

text \<open>
  C5, amended: for every string \<open>s\<close>, \<open>isEmailValid s\<close> is true iff \<open>s\<close> contains no
  white space, contains exactly one \<^verbatim>\<open>@\<close> with a non-empty local part before it, and
  the domain part after it contains a full stop that has at least one character before it
  and at least one after it. The answer does not depend on the case of the letters A to Z.
  In particular \<^verbatim>\<open>a@b.co\<close> is valid and \<^verbatim>\<open>foo\<close>, \<^verbatim>\<open>foo@\<close>, \<^verbatim>\<open>foo@bar\<close> and
  \<^verbatim>\<open>a b@c.com\<close> are not.
\<close>

theorem isEmailValid_iff_email_rule:
  "(isEmailValid s \<longleftrightarrow>
      \<not> list_ex is_space s \<and> count_list s at_sign = 1 \<and> local_part s \<noteq> [] \<and>
      full_stop \<in> set (butlast (tl (domain_part s)))) \<and>
   (toLowerCase s = toLowerCase t \<longrightarrow> isEmailValid s = isEmailValid t) \<and>
   isEmailValid (js ''a@b.co'') \<and> \<not> isEmailValid (js ''foo'') \<and> \<not> isEmailValid (js ''foo@'') \<and>
   \<not> isEmailValid (js ''foo@bar'') \<and> \<not> isEmailValid (js ''a b@c.com'')"
proof -
  have "isEmailValid s \<longleftrightarrow>
      \<not> list_ex is_space s \<and> count_list s at_sign = 1 \<and> local_part s \<noteq> [] \<and>
      full_stop \<in> set (butlast (tl (domain_part s)))"
    using isEmailValid_email_rule[of s] by (simp add: email_rule_def inner_dot_def)
  moreover have "toLowerCase s = toLowerCase t \<longrightarrow> isEmailValid s = isEmailValid t"
    by (simp add: isEmailValid_def)
  moreover have "isEmailValid (js ''a@b.co'')" by (simp add: email_eval)
  moreover have "\<not> isEmailValid (js ''foo'')" by (simp add: email_eval)
  moreover have "\<not> isEmailValid (js ''foo@'')" by (simp add: email_eval)
  moreover have "\<not> isEmailValid (js ''foo@bar'')" by (simp add: email_eval)
  moreover have "\<not> isEmailValid (js ''a b@c.com'')" by (simp add: email_eval)
  ultimately show ?thesis by blast
qed

theorem isEmailValid_iff_email_rule_witness:
  "toLowerCase (js ''A@b.CO'') = toLowerCase (js ''a@B.co'') \<and>
   isEmailValid (js ''A@b.CO'') \<and> isEmailValid (js ''a@B.co'') \<and>
   count_list (js ''A@b.CO'') at_sign = 1 \<and>
   full_stop \<in> set (butlast (tl (domain_part (js ''A@b.CO''))))"
proof -
  have l: "toLowerCase (js ''A@b.CO'') = toLowerCase (js ''a@B.co'')"
    by (simp add: toLowerCase_def lower_unit_def js_def)
  have v: "isEmailValid (js ''a@B.co'')" by (simp add: email_eval)
  from l v isEmailValid_iff_email_rule[of "js ''A@b.CO''" "js ''a@B.co''"]
  show ?thesis by blast
qed

subsection \<open>What the pieces of the contact handler change\<close>

lemmas monad_defs = return_def throw_def modify_def then_js_def try_catch_def try_finally_def await_js_def

lemma toggleAlert_hide [simp]: "fst (toggleAlert i False m p) = Normal ()"
  by (simp add: toggleAlert_def split: option.splits)

lemma toggleAlert_frame [simp]:
  "contact_field (snd (toggleAlert i s m p)) = contact_field p"
  "contact_submit_disabled (snd (toggleAlert i s m p)) = contact_submit_disabled p"
  "contact_spinner_d_none (snd (toggleAlert i s m p)) = contact_spinner_d_none p"
  "newsletter_email (snd (toggleAlert i s m p)) = newsletter_email p"
  "newsletter_feedback (snd (toggleAlert i s m p)) = newsletter_feedback p"
  by (auto simp: toggleAlert_def setBanner_def Let_def split: option.splits banner_id.splits banner_body.splits)

lemma set_invalid_frame [simp]:
  "contact_success (set_invalid f b p) = contact_success p"
  "contact_error (set_invalid f b p) = contact_error p"
  "contact_submit_disabled (set_invalid f b p) = contact_submit_disabled p"
  "contact_spinner_d_none (set_invalid f b p) = contact_spinner_d_none p"
  "newsletter_email (set_invalid f b p) = newsletter_email p"
  "newsletter_feedback (set_invalid f b p) = newsletter_feedback p"
  by (auto simp: set_invalid_def split: option.splits)

lemma set_invalid_field:
  "contact_field (set_invalid f b p) g =
     (if g = f then map_option (\<lambda>el. el\<lparr>is_invalid := b\<rparr>) (contact_field p f) else contact_field p g)"
  by (auto simp: set_invalid_def split: option.splits)

lemma set_invalid_value [simp]: "value_of (set_invalid f b p) g = value_of p g"
  by (cases "contact_field p f") (auto simp: value_of_def set_invalid_field)

text \<open>The checks read only whether a field is there and what its value is.\<close>

lemma blank_cong:
  "value_of p f = value_of q f \<Longrightarrow> blank f p = blank f q"
  by (auto simp: blank_def value_of_def split: option.splits)

lemma bad_email_cong:
  "value_of p Email = value_of q Email \<Longrightarrow> bad_email p = bad_email q"
  by (auto simp: bad_email_def value_of_def split: option.splits)

lemma blank_set_invalid [simp]: "blank f (set_invalid g b p) = blank f p"
  by (rule blank_cong) simp

lemma bad_email_set_invalid [simp]: "bad_email (set_invalid g b p) = bad_email p"
  by (rule bad_email_cong) simp

lemma value_of_toggleAlert [simp]: "value_of (snd (toggleAlert i s m p)) f = value_of p f"
  by (simp add: value_of_def)

lemma blank_toggleAlert [simp]: "blank f (snd (toggleAlert i s m p)) = blank f p"
  by (rule blank_cong) simp

lemma bad_email_toggleAlert [simp]: "bad_email (snd (toggleAlert i s m p)) = bad_email p"
  by (rule bad_email_cong) simp

lemma fst_validate: "fst (validate p) = Normal (contact_valid p)"
  by (simp add: validate_def contact_valid_def Let_def)

lemma validate_values [simp]: "value_of (snd (validate p)) g = value_of p g"
  by (simp add: validate_def Let_def)

lemma validate_frame [simp]:
  "contact_success (snd (validate p)) = contact_success p"
  "contact_error (snd (validate p)) = contact_error p"
  "contact_submit_disabled (snd (validate p)) = contact_submit_disabled p"
  "contact_spinner_d_none (snd (validate p)) = contact_spinner_d_none p"
  "newsletter_email (snd (validate p)) = newsletter_email p"
  "newsletter_feedback (snd (validate p)) = newsletter_feedback p"
  by (simp_all add: validate_def Let_def)

lemma contact_valid_cong:
  "(\<And>f. value_of p f = value_of q f) \<Longrightarrow> contact_valid p = contact_valid q"
  unfolding contact_valid_def
  using blank_cong[of p _ q] bad_email_cong[of p q] by metis

lemma contact_valid_toggleAlert [simp]:
  "contact_valid (snd (toggleAlert i s m p)) = contact_valid p"
  by (rule contact_valid_cong) simp

lemma value_of_after_checks [simp]: "value_of (after_checks p) f = value_of p f"
  by (simp add: after_checks_def)

lemma contact_valid_after_checks [simp]: "contact_valid (after_checks p) = contact_valid p"
  unfolding after_checks_def by (rule contact_valid_cong) simp

lemma trim_Nil [simp]: "trim [] = []"
  by (simp add: trim_def)

lemma build_payload_values:
  "fst (build_payload p) =
     (case (value_of p Name, value_of p Email, value_of p Subject, value_of p Message) of
        (Some n, Some e, Some s, Some m) \<Rightarrow>
          Normal [(''name'', trim n), (''email'', trim e),
                  (''phone'', trim (case value_of p Phone of None \<Rightarrow> [] | Some v \<Rightarrow> v)),
                  (''company'', trim (case value_of p Company of None \<Rightarrow> [] | Some v \<Rightarrow> v)),
                  (''subject'', trim s), (''message'', trim m),
                  (''ref'', case value_of p Ref of None \<Rightarrow> [] | Some v \<Rightarrow> v)]
      | _ \<Rightarrow> Throw TypeError)"
  by (simp add: build_payload_def value_of_def optional_trimmed_def optional_raw_def
      split: option.splits)

lemma build_payload_cong:
  "(\<And>f. value_of p f = value_of q f) \<Longrightarrow> fst (build_payload p) = fst (build_payload q)"
  by (simp add: build_payload_values cong: option.case_cong prod.case_cong)

lemma snd_build_payload [simp]: "snd (build_payload p) = p"
  by (auto simp: build_payload_def split: option.splits)


lemma build_payload_after_checks [simp]:
  "fst (build_payload (after_checks p)) = fst (build_payload p)"
  by (rule build_payload_cong) simp

lemma build_payload_valid:
  "contact_valid p \<Longrightarrow> \<exists>ps. fst (build_payload p) = Normal ps"
  by (auto simp: contact_valid_def blank_def bad_email_def build_payload_def split: option.splits)

subsection \<open>The contact handler up to its first await\<close>

lemma then_js_alt:
  "then_js m f p =
     (case fst (m p) of Normal x \<Rightarrow> f x (snd (m p)) | Throw e \<Rightarrow> (Throw e, snd (m p)))"
  by (simp add: then_js_def split: prod.splits completion.splits)

lemma contact_submit_invalid:
  "\<not> contact_valid p \<Longrightarrow>
   contact_submit env p = (Normal Invalid, announce_invalid (after_checks p))"
  by (simp add: contact_submit_def then_js_alt fst_validate after_checks_def modify_def return_def)

lemma contact_submit_valid:
  assumes "contact_valid p"
  shows "\<exists>ps. fst (build_payload p) = Normal ps \<and>
     contact_submit env p = (Normal (Pending (contact_send env ps)), showSpinner True (after_checks p))"
proof -
  from assms obtain ps where ps: "fst (build_payload p) = Normal ps"
    using build_payload_valid by blast
  then have "fst (build_payload (after_checks p)) = Normal ps" by simp
  then have "contact_submit env p = (Normal (Pending (contact_send env ps)), showSpinner True (after_checks p))"
    using assms
    by (simp add: contact_submit_def then_js_alt fst_validate after_checks_def[symmetric] modify_def
        return_def contact_send_def)
  with ps show ?thesis by blast
qed

subsection \<open>Strategy selection\<close>

lemma selected_contact:
  assumes "contact_valid p"
  shows "selected Contact env p =
     Some (if truthy (EMAILJS_SERVICE_ID env) \<and> window_emailjs env then MailRelayStrategy
           else if truthy (FORMSPREE_ENDPOINT env) then FormRelayStrategy else DemoStrategy)"
proof -
  from contact_submit_valid[OF assms, of env] obtain ps where
    "contact_submit env p = (Normal (Pending (contact_send env ps)), showSpinner True (after_checks p))"
    by blast
  then show ?thesis
    by (simp add: selected_def submit_handler_def contact_send_def)
qed

lemma newsletter_submit_valid:
  assumes "newsletter_valid p"
  shows "fst (newsletter_submit env p) =
     Normal (if \<not> truthy (EMAILJS_SERVICE_ID env) \<and> \<not> truthy (FORMSPREE_ENDPOINT env) then Done Success
             else if truthy (FORMSPREE_ENDPOINT env) then
               Pending (AwaitFetch (FORMSPREE_ENDPOINT env) ''POST'' [(''Accept'', ''application/json'')]
                  [(''email'', case newsletter_email p of None \<Rightarrow> [] | Some el \<Rightarrow> trim (input_value el))])
             else if truthy (EMAILJS_SERVICE_ID env) \<and> window_emailjs env then
               Pending (AwaitEmailjsSend (EMAILJS_SERVICE_ID env) (EMAILJS_TEMPLATE_ID env)
                  [(''email'', case newsletter_email p of None \<Rightarrow> [] | Some el \<Rightarrow> trim (input_value el))]
                  (EMAILJS_PUBLIC_KEY env))
             else Dropped)"
  using assms by (auto simp: newsletter_valid_def newsletter_submit_def Let_def split: option.splits)

text \<open>
  C1, amended: a submit event with valid input makes the handler use exactly one strategy:
  the mail relay when the EmailJS service id is non-empty and \<^verbatim>\<open>window.emailjs\<close> is
  defined, otherwise the form relay when the Formspree endpoint is non-empty, otherwise the
  demo strategy. The template id and the public key play no part in the choice. This holds
  for the contact form with every configuration, and for the newsletter form with every
  configuration but two: the endpoint set together with a usable mail relay, and the
  service id set with neither \<^verbatim>\<open>window.emailjs\<close> nor an endpoint.
\<close>

theorem strategy_selection:
  "(contact_valid p \<longrightarrow>
      selected Contact env p =
        Some (if truthy (EMAILJS_SERVICE_ID env) \<and> window_emailjs env then MailRelayStrategy
              else if truthy (FORMSPREE_ENDPOINT env) then FormRelayStrategy else DemoStrategy)) \<and>
   (newsletter_valid p \<and>
    \<not> (truthy (FORMSPREE_ENDPOINT env) \<and> truthy (EMAILJS_SERVICE_ID env) \<and> window_emailjs env) \<and>
    \<not> (\<not> truthy (FORMSPREE_ENDPOINT env) \<and> truthy (EMAILJS_SERVICE_ID env) \<and> \<not> window_emailjs env)
    \<longrightarrow>
      selected Newsletter env p =
        Some (if truthy (EMAILJS_SERVICE_ID env) \<and> window_emailjs env then MailRelayStrategy
              else if truthy (FORMSPREE_ENDPOINT env) then FormRelayStrategy else DemoStrategy))"
  using selected_contact[of p env] newsletter_submit_valid[of p env]
  by (auto simp: selected_def submit_handler_def)

lemmas example_defs =
  filled_page_def filled_fields_def text_input_def hidden_banner_def empty_page_def
  env_none_def env_service_only_def env_formspree_def env_both_def idle_world_def

lemma contact_valid_filled: "contact_valid filled_page"
  apply (simp add: contact_valid_def blank_def bad_email_def example_defs truthy_def)
  apply (simp add: trim_def js_def is_space_def isEmailValid_def email_regex_def toLowerCase_def lower_unit_def)
  done

lemma newsletter_valid_filled: "newsletter_valid filled_page"
  apply (simp add: newsletter_valid_def example_defs)
  apply (simp add: trim_def js_def is_space_def isEmailValid_def email_regex_def toLowerCase_def lower_unit_def)
  done

theorem strategy_selection_witness:
  "contact_valid filled_page \<and> newsletter_valid filled_page \<and>
   selected Contact env_both filled_page = Some MailRelayStrategy \<and>
   selected Contact env_formspree filled_page = Some FormRelayStrategy \<and>
   selected Contact env_none filled_page = Some DemoStrategy \<and>
   selected Newsletter env_service_only filled_page = Some MailRelayStrategy \<and>
   selected Newsletter env_formspree filled_page = Some FormRelayStrategy \<and>
   selected Newsletter env_none filled_page = Some DemoStrategy"
proof -
  have e: "truthy (js ''service_1'')" "truthy (js ''https://formspree.io/f/x'')" "\<not> truthy []"
    by (simp_all add: truthy_def js_def)
  from strategy_selection[of filled_page env_both] strategy_selection[of filled_page env_formspree]
    strategy_selection[of filled_page env_none] strategy_selection[of filled_page env_service_only]
    contact_valid_filled newsletter_valid_filled e
  show ?thesis
    by (simp add: env_both_def env_formspree_def env_none_def env_service_only_def)
qed

text \<open>
  C1, as stated, fails: with only the service id set and \<^verbatim>\<open>window.emailjs\<close> defined, the
  mail-relay configuration is not fully non-empty and the endpoint is empty, so the stated
  precedence gives the demo strategy; the contact handler calls EmailJS.
\<close>

theorem stated_selection_counterexample:
  "selected Contact env_service_only filled_page = Some MailRelayStrategy \<and>
   stated_select env_service_only = DemoStrategy"
  using selected_contact[OF contact_valid_filled, of env_service_only]
  by (simp add: stated_select_def env_service_only_def env_none_def truthy_def js_def)

text \<open>
  The two configurations left out above. With the endpoint set and a usable mail relay,
  the newsletter handler posts to the endpoint, where the contact handler calls EmailJS.
  With the service id set, no endpoint and no \<^verbatim>\<open>window.emailjs\<close>, the newsletter
  handler returns without sending and without telling the user, where the contact handler
  falls back to the demo mode.
\<close>

lemma newsletter_prefers_endpoint:
  "selected Newsletter env_both filled_page = Some FormRelayStrategy \<and>
   selected Contact env_both filled_page = Some MailRelayStrategy"
  using newsletter_submit_valid[OF newsletter_valid_filled, of env_both]
    selected_contact[OF contact_valid_filled, of env_both]
  by (simp add: selected_def submit_handler_def env_both_def truthy_def js_def)

lemma newsletter_dropped:
  "fst (newsletter_submit (env_service_only\<lparr>window_emailjs := False\<rparr>) filled_page) = Normal Dropped \<and>
   selected Contact (env_service_only\<lparr>window_emailjs := False\<rparr>) filled_page = Some DemoStrategy"
  using newsletter_submit_valid[OF newsletter_valid_filled, of "env_service_only\<lparr>window_emailjs := False\<rparr>"]
    selected_contact[OF contact_valid_filled, of "env_service_only\<lparr>window_emailjs := False\<rparr>"]
  by (simp add: env_service_only_def env_none_def truthy_def js_def)

subsection \<open>The handlers after the awaited operation settled\<close>

lemma fst_toggleAlert_show:
  "fst (toggleAlert i True m p) =
     (if truthy m \<and> \<not> takes_message (getBanner i p) then Throw TypeError else Normal ())"
  by (auto simp: toggleAlert_def takes_message_def Let_def split: option.splits banner_body.splits)

lemma toggleAlert_silent [simp]: "fst (toggleAlert i True [] p) = Normal ()"
  by (simp add: fst_toggleAlert_show truthy_def)

lemma takes_message_toggleAlert [simp]:
  "takes_message (contact_error (snd (toggleAlert i s m p))) = takes_message (contact_error p)"
  by (auto simp: toggleAlert_def takes_message_def setBanner_def getBanner_def Let_def
      split: option.splits banner_body.splits banner_id.splits)

lemma messages_truthy [simp]:
  "truthy msg_contact_emailjs_failed" "truthy msg_contact_failed" "truthy msg_contact_network"
  by (simp_all add: truthy_def msg_contact_emailjs_failed_def msg_contact_failed_def
      msg_contact_network_def js_def)

lemma getBanner_error [simp]: "getBanner ContactError p = contact_error p"
  by (simp add: getBanner_def)

lemma getBanner_success [simp]: "getBanner ContactSuccess p = contact_success p"
  by (simp add: getBanner_def)

lemma contact_emailjs_fulfilled:
  "contact_emailjs_settled (Fulfilled u) p = (Normal Success, show_success p)"
  by (simp add: contact_emailjs_settled_def show_success_def try_finally_def try_catch_def
      then_js_alt await_js_def return_def modify_def split: prod.splits)

lemma contact_emailjs_rejected:
  "contact_emailjs_settled Rejected p =
     (if takes_message (contact_error p) then Normal (ServiceFailure msg_contact_emailjs_failed)
      else Throw TypeError, show_error msg_contact_emailjs_failed p)"
  by (simp add: contact_emailjs_settled_def show_error_def try_finally_def try_catch_def
      then_js_alt await_js_def return_def modify_def throw_def fst_toggleAlert_show split: prod.splits)

lemma contact_fetch_ok:
  "resp_ok st \<Longrightarrow> contact_fetch_settled (Fulfilled st) p = (Normal Success, show_success p)"
  by (simp add: contact_fetch_settled_def show_success_def try_finally_def try_catch_def
      then_js_alt await_js_def return_def modify_def split: prod.splits)

lemma contact_fetch_not_ok:
  "\<not> resp_ok st \<Longrightarrow> contact_fetch_settled (Fulfilled st) p =
     (if takes_message (contact_error p)
      then (Normal (ServiceFailure msg_contact_failed), show_error msg_contact_failed p)
      else (Throw TypeError,
            show_error msg_contact_network (snd (toggleAlert ContactError True msg_contact_failed p))))"
  by (simp add: contact_fetch_settled_def show_error_def try_finally_def try_catch_def
      then_js_alt await_js_def return_def modify_def throw_def fst_toggleAlert_show split: prod.splits)

lemma contact_fetch_rejected:
  "contact_fetch_settled Rejected p =
     (if takes_message (contact_error p) then Normal (NetworkFailure msg_contact_network)
      else Throw TypeError, show_error msg_contact_network p)"
  by (simp add: contact_fetch_settled_def show_error_def try_finally_def try_catch_def
      then_js_alt await_js_def return_def modify_def throw_def fst_toggleAlert_show split: prod.splits)

lemma contact_timer_fired_eq: "contact_timer_fired p = (Normal Success, show_success p)"
  by (simp add: contact_timer_fired_def show_success_def then_js_alt return_def modify_def)

lemma newsletter_fetch_eq:
  "newsletter_fetch_settled r p =
     (case r of
        Fulfilled st \<Rightarrow>
          if resp_ok st then (Normal Success, newsletter_reset (show_feedback msg_newsletter_subscribed p))
          else (Normal (ServiceFailure msg_newsletter_failed_later),
                show_feedback msg_newsletter_failed_later p)
      | Rejected \<Rightarrow> (Normal (NetworkFailure msg_newsletter_network),
                     show_feedback msg_newsletter_network p))"
  by (simp add: newsletter_fetch_settled_def try_catch_def then_js_alt await_js_def return_def
      modify_def throw_def split: settled.splits)

lemma newsletter_emailjs_eq:
  "newsletter_emailjs_settled r p =
     (case r of
        Fulfilled u \<Rightarrow> (Normal Success, newsletter_reset (show_feedback msg_newsletter_subscribed p))
      | Rejected \<Rightarrow> (Normal (ServiceFailure msg_newsletter_failed),
                     show_feedback msg_newsletter_failed p))"
  by (simp add: newsletter_emailjs_settled_def try_catch_def then_js_alt await_js_def return_def
      modify_def throw_def split: settled.splits)

subsection \<open>Outcomes of the form relay and of the mail relay\<close>

text \<open>
  When \<^verbatim>\<open>fetch\<close> settles, a response with a status from 200 to 299 gives
  \<open>Success\<close>, a response with any other status gives \<open>ServiceFailure\<close>, and a
  rejected \<^verbatim>\<open>fetch\<close> gives \<open>NetworkFailure\<close>: in the newsletter handler always, in
  the contact handler when the error banner can take the message that the two failing
  branches write into it. No handler ends with another outcome.
\<close>

lemma form_relay_outcomes:
  "newsletter_fetch_settled r p =
     (case r of
        Fulfilled st \<Rightarrow>
          if resp_ok st then (Normal Success, newsletter_reset (show_feedback msg_newsletter_subscribed p))
          else (Normal (ServiceFailure msg_newsletter_failed_later),
                show_feedback msg_newsletter_failed_later p)
      | Rejected \<Rightarrow> (Normal (NetworkFailure msg_newsletter_network),
                     show_feedback msg_newsletter_network p)) \<and>
   (takes_message (contact_error p) \<or> (\<exists>st. r = Fulfilled st \<and> resp_ok st) \<longrightarrow>
      contact_fetch_settled r p =
        (case r of
           Fulfilled st \<Rightarrow>
             if resp_ok st then (Normal Success, show_success p)
             else (Normal (ServiceFailure msg_contact_failed), show_error msg_contact_failed p)
         | Rejected \<Rightarrow> (Normal (NetworkFailure msg_contact_network),
                        show_error msg_contact_network p))) \<and>
   (fst (contact_fetch_settled r p) = Normal out \<longrightarrow>
      out = (case r of
               Fulfilled st \<Rightarrow> if resp_ok st then Success else ServiceFailure msg_contact_failed
             | Rejected \<Rightarrow> NetworkFailure msg_contact_network))"
  by (auto simp: newsletter_fetch_eq contact_fetch_ok contact_fetch_not_ok contact_fetch_rejected
      split: settled.splits if_splits)

lemma takes_message_filled: "takes_message (contact_error filled_page)"
  by (simp add: takes_message_def example_defs)

lemma form_relay_outcomes_example:
  "resp_ok 200 \<and> \<not> resp_ok 500 \<and> takes_message (contact_error filled_page) \<and>
   fst (contact_fetch_settled (Fulfilled 200) filled_page) = Normal Success \<and>
   fst (contact_fetch_settled (Fulfilled 500) filled_page) = Normal (ServiceFailure msg_contact_failed) \<and>
   fst (contact_fetch_settled Rejected filled_page) = Normal (NetworkFailure msg_contact_network) \<and>
   fst (newsletter_fetch_settled (Fulfilled 404) filled_page) =
     Normal (ServiceFailure msg_newsletter_failed_later)"
  using form_relay_outcomes[where r = "Fulfilled 200" and p = filled_page and out = Success]
    form_relay_outcomes[where r = "Fulfilled 500" and p = filled_page
      and out = "ServiceFailure msg_contact_failed"]
    form_relay_outcomes[where r = "Rejected" and p = filled_page
      and out = "NetworkFailure msg_contact_network"]
    form_relay_outcomes[where r = "Fulfilled 404" and p = filled_page and out = Success]
    takes_message_filled
  by (simp add: resp_ok_def)

lemma resume_uncaught:
  "uncaught (resume k i w) =
     uncaught w @ (case fst (k (doc w)) of Normal x \<Rightarrow> [] | Throw e \<Rightarrow> [e])"
  by (simp add: resume_def split: prod.splits completion.splits)

text \<open>
  When \<^verbatim>\<open>window.emailjs.send\<close> rejects, the rejection is caught in both handlers and is
  not among the exceptions that leave the handler. The newsletter handler always ends with
  \<open>ServiceFailure\<close> and a fixed message; the contact handler does when the error banner
  can take the message.
\<close>

lemma mail_relay_rejection:
  "newsletter_emailjs_settled Rejected p =
     (Normal (ServiceFailure msg_newsletter_failed), show_feedback msg_newsletter_failed p) \<and>
   fst (contact_emailjs_settled Rejected p) \<noteq> Throw Rejection \<and>
   (fst (contact_emailjs_settled Rejected p) = Normal out \<longrightarrow>
      out = ServiceFailure msg_contact_emailjs_failed) \<and>
   (takes_message (contact_error p) \<longrightarrow>
      contact_emailjs_settled Rejected p =
        (Normal (ServiceFailure msg_contact_emailjs_failed), show_error msg_contact_emailjs_failed p)) \<and>
   (step env (Settled i (EmailjsResult Rejected)) w = Some w' \<longrightarrow>
      Rejection \<notin> set (uncaught w') - set (uncaught w) \<and>
      (takes_message (contact_error (doc w)) \<longrightarrow> uncaught w' = uncaught w))"
proof -
  have "Rejection \<notin> set (uncaught w') - set (uncaught w) \<and>
      (takes_message (contact_error (doc w)) \<longrightarrow> uncaught w' = uncaught w)"
    if "step env (Settled i (EmailjsResult Rejected)) w = Some w'"
  proof -
    from that obtain k where k: "continuation (owner (tasks w ! i)) (waits (tasks w ! i)) (EmailjsResult Rejected) = Some k"
      and w': "w' = resume k i w"
      by (auto simp: step_def split: if_splits option.splits)
    from k have "k = contact_emailjs_settled Rejected \<or> k = newsletter_emailjs_settled Rejected"
      by (cases "owner (tasks w ! i)"; cases "waits (tasks w ! i)") auto
    then show ?thesis
      unfolding w'
      by (auto simp: resume_uncaught contact_emailjs_rejected newsletter_emailjs_eq split: if_splits)
  qed
  then show ?thesis
    by (auto simp: newsletter_emailjs_eq contact_emailjs_rejected split: if_splits)
qed

subsection \<open>Fields, banners and the busy state after a handler\<close>

lemma showSpinner_frame [simp]:
  "contact_success (showSpinner b p) = contact_success p"
  "contact_error (showSpinner b p) = contact_error p"
  "contact_field (showSpinner b p) = contact_field p"
  "newsletter_email (showSpinner b p) = newsletter_email p"
  "newsletter_feedback (showSpinner b p) = newsletter_feedback p"
  "contact_submit_disabled (showSpinner b p) = map_option (\<lambda>_. b) (contact_submit_disabled p)"
  "contact_spinner_d_none (showSpinner b p) = map_option (\<lambda>_. \<not> b) (contact_spinner_d_none p)"
  by (simp_all add: showSpinner_def)

lemma form_reset_frame [simp]:
  "contact_success (form_reset p) = contact_success p"
  "contact_error (form_reset p) = contact_error p"
  "contact_submit_disabled (form_reset p) = contact_submit_disabled p"
  "contact_spinner_d_none (form_reset p) = contact_spinner_d_none p"
  "newsletter_email (form_reset p) = newsletter_email p"
  "newsletter_feedback (form_reset p) = newsletter_feedback p"
  by (simp_all add: form_reset_def)

lemma value_of_form_reset [simp]: "value_of (form_reset p) f = default_of p f"
  by (cases "contact_field p f") (simp_all add: value_of_def default_of_def form_reset_def reset_input_def)

lemma value_of_showSpinner [simp]: "value_of (showSpinner b p) f = value_of p f"
  by (simp add: value_of_def)

lemma default_of_toggleAlert [simp]: "default_of (snd (toggleAlert i s m p)) f = default_of p f"
  by (simp add: default_of_def)

lemma announce_invalid_frame [simp]:
  "contact_success (announce_invalid p) = contact_success p"
  "contact_field (announce_invalid p) = contact_field p"
  "contact_submit_disabled (announce_invalid p) = contact_submit_disabled p"
  "contact_spinner_d_none (announce_invalid p) = contact_spinner_d_none p"
  "newsletter_email (announce_invalid p) = newsletter_email p"
  "newsletter_feedback (announce_invalid p) = newsletter_feedback p"
  by (simp_all add: announce_invalid_def)

lemma after_checks_frame [simp]:
  "contact_submit_disabled (after_checks p) = contact_submit_disabled p"
  "contact_spinner_d_none (after_checks p) = contact_spinner_d_none p"
  "newsletter_email (after_checks p) = newsletter_email p"
  "newsletter_feedback (after_checks p) = newsletter_feedback p"
  by (simp_all add: after_checks_def)

lemma value_of_show_success [simp]: "value_of (show_success p) f = default_of p f"
  by (simp add: show_success_def)

lemma value_of_show_error [simp]: "value_of (show_error m p) f = value_of p f"
  by (simp add: show_error_def)

lemma not_busy_showSpinner [simp]: "\<not> busy (showSpinner False p)"
  by (simp add: busy_def)

lemma not_busy_shown [simp]: "\<not> busy (show_success p)" "\<not> busy (show_error m p)"
  by (simp_all add: show_success_def show_error_def)

text \<open>Which banners a call of \<^verbatim>\<open>toggleAlert\<close> leaves visible.\<close>

lemma visible_toggleAlert:
  "visible (contact_success (snd (toggleAlert i s m p))) =
     (if i = ContactSuccess then s \<and> contact_success p \<noteq> None else visible (contact_success p))"
  "visible (contact_error (snd (toggleAlert i s m p))) =
     (if i = ContactError then s \<and> contact_error p \<noteq> None else visible (contact_error p))"
  by (auto simp: toggleAlert_def visible_def setBanner_def getBanner_def Let_def
      split: option.splits banner_body.splits banner_id.splits)

lemma visible_after_checks [simp]:
  "\<not> visible (contact_success (after_checks p))" "\<not> visible (contact_error (after_checks p))"
  by (simp_all add: after_checks_def visible_toggleAlert)

lemma visible_show_success [simp]:
  "visible (contact_error (show_success p)) = visible (contact_error p)"
  by (simp add: show_success_def visible_toggleAlert)

lemma visible_show_error [simp]:
  "visible (contact_success (show_error m p)) = visible (contact_success p)"
  by (simp add: show_error_def visible_toggleAlert)

lemma visible_announce_invalid [simp]:
  "visible (contact_error (announce_invalid p)) \<longleftrightarrow> contact_error p \<noteq> None"
  by (cases "contact_error p") (simp_all add: announce_invalid_def visible_def)

text \<open>What the continuations of the contact form are.\<close>

lemma continuation_contact:
  assumes "continuation Contact a r = Some k"
  shows "k p = (Normal Success, show_success p) \<or>
         (\<exists>m. fst (k p) \<noteq> Normal Success \<and> snd (k p) = show_error m p) \<or>
         (\<exists>m m'. fst (k p) \<noteq> Normal Success \<and>
            snd (k p) = show_error m (snd (toggleAlert ContactError True m' p)))"
proof (cases a)
  case (AwaitEmailjsSend x1 x2 x3 x4)
  with assms obtain s where "k = contact_emailjs_settled s" by (cases r) auto
  then show ?thesis
    by (cases s) (auto simp: contact_emailjs_fulfilled contact_emailjs_rejected)
next
  case (AwaitFetch x1 x2 x3 x4)
  with assms obtain s where "k = contact_fetch_settled s" by (cases r) auto
  then show ?thesis
  proof (cases s)
    case (Fulfilled st)
    with \<open>k = contact_fetch_settled s\<close> show ?thesis
      by (cases "resp_ok st") (auto simp: contact_fetch_ok contact_fetch_not_ok)
  next
    case Rejected
    with \<open>k = contact_fetch_settled s\<close> show ?thesis
      by (auto simp: contact_fetch_rejected)
  qed
next
  case (AwaitTimeout n)
  with assms have "k = contact_timer_fired" by (cases r) auto
  then show ?thesis by (simp add: contact_timer_fired_eq)
qed

lemma continuation_newsletter:
  assumes "continuation Newsletter a r = Some k"
  shows "k p = (Normal Success, newsletter_reset (show_feedback msg_newsletter_subscribed p)) \<or>
         (\<exists>m. fst (k p) \<noteq> Normal Success \<and> fst (k p) \<noteq> Throw Rejection \<and> fst (k p) \<noteq> Throw TypeError
               \<and> snd (k p) = show_feedback m p)"
proof (cases a)
  case (AwaitEmailjsSend x1 x2 x3 x4)
  with assms obtain s where "k = newsletter_emailjs_settled s" by (cases r) auto
  then show ?thesis
    by (cases s) (auto simp: newsletter_emailjs_eq)
next
  case (AwaitFetch x1 x2 x3 x4)
  with assms obtain s where "k = newsletter_fetch_settled s" by (cases r) auto
  then show ?thesis
    by (cases s) (auto simp: newsletter_fetch_eq)
next
  case (AwaitTimeout n)
  with assms show ?thesis by simp
qed

lemma newsletter_frame [simp]:
  "contact_submit_disabled (show_feedback m p) = contact_submit_disabled p"
  "contact_spinner_d_none (show_feedback m p) = contact_spinner_d_none p"
  "newsletter_email (show_feedback m p) = newsletter_email p"
  "contact_success (show_feedback m p) = contact_success p"
  "contact_error (show_feedback m p) = contact_error p"
  "contact_field (show_feedback m p) = contact_field p"
  "contact_submit_disabled (newsletter_reset p) = contact_submit_disabled p"
  "contact_spinner_d_none (newsletter_reset p) = contact_spinner_d_none p"
  "newsletter_email (newsletter_reset p) = map_option reset_input (newsletter_email p)"
  "contact_success (newsletter_reset p) = contact_success p"
  "contact_error (newsletter_reset p) = contact_error p"
  "contact_field (newsletter_reset p) = contact_field p"
  by (simp_all add: show_feedback_def newsletter_reset_def)

lemma busy_newsletter [simp]:
  "busy (show_feedback m p) = busy p" "busy (newsletter_reset p) = busy p"
  by (simp_all add: busy_def)

text \<open>
  C7, amended: when a submission of the contact form settles, then on \<open>Success\<close> every
  field of the form has its default value again (so that a form whose inputs all have an
  empty default is cleared), on any other ending every field keeps the value it had, and in
  both cases the contact form is not busy afterwards. When a submission of the newsletter
  form settles, then on \<open>Success\<close> its e-mail field has its default value again and on
  any other ending the field is unchanged; the newsletter form has no busy state, and its
  handlers leave the busy state of the page as it is.
\<close>

theorem settled_fields_and_busy:
  "(continuation Contact a r = Some k \<longrightarrow>
      (fst (k p) = Normal Success \<longrightarrow>
         (\<forall>f. value_of (snd (k p)) f = default_of p f) \<and>
         ((\<forall>f el. contact_field p f = Some el \<longrightarrow> default_value el = []) \<longrightarrow>
            (\<forall>f el. contact_field (snd (k p)) f = Some el \<longrightarrow> input_value el = []))) \<and>
      (fst (k p) \<noteq> Normal Success \<longrightarrow> (\<forall>f. value_of (snd (k p)) f = value_of p f)) \<and>
      \<not> busy (snd (k p))) \<and>
   (continuation Newsletter a r = Some k \<longrightarrow>
      (fst (k p) = Normal Success \<longrightarrow>
         map_option input_value (newsletter_email (snd (k p))) =
         map_option default_value (newsletter_email p)) \<and>
      (fst (k p) \<noteq> Normal Success \<longrightarrow> newsletter_email (snd (k p)) = newsletter_email p) \<and>
      busy (snd (k p)) = busy p)"
proof -
  have "(fst (k p) = Normal Success \<longrightarrow>
         (\<forall>f. value_of (snd (k p)) f = default_of p f) \<and>
         ((\<forall>f el. contact_field p f = Some el \<longrightarrow> default_value el = []) \<longrightarrow>
            (\<forall>f el. contact_field (snd (k p)) f = Some el \<longrightarrow> input_value el = []))) \<and>
      (fst (k p) \<noteq> Normal Success \<longrightarrow> (\<forall>f. value_of (snd (k p)) f = value_of p f)) \<and>
      \<not> busy (snd (k p))"
    if c: "continuation Contact a r = Some k"
  proof -
    from continuation_contact[OF c, of p]
    have 1: "fst (k p) = Normal Success \<longrightarrow> (\<forall>f. value_of (snd (k p)) f = default_of p f)"
      and 2: "fst (k p) \<noteq> Normal Success \<longrightarrow> (\<forall>f. value_of (snd (k p)) f = value_of p f)"
      and 3: "\<not> busy (snd (k p))"
      by auto
    have "input_value el = []"
      if s: "fst (k p) = Normal Success"
        and d: "\<forall>f el. contact_field p f = Some el \<longrightarrow> default_value el = []"
        and f: "contact_field (snd (k p)) f = Some el" for f el
    proof -
      from 1 s have "value_of (snd (k p)) f = default_of p f" by simp
      with f have "default_of p f = Some (input_value el)" by (simp add: value_of_def)
      with d show ?thesis by (auto simp: default_of_def)
    qed
    with 1 2 3 show ?thesis by blast
  qed
  moreover have "(fst (k p) = Normal Success \<longrightarrow>
         map_option input_value (newsletter_email (snd (k p))) =
         map_option default_value (newsletter_email p)) \<and>
      (fst (k p) \<noteq> Normal Success \<longrightarrow> newsletter_email (snd (k p)) = newsletter_email p) \<and>
      busy (snd (k p)) = busy p"
    if "continuation Newsletter a r = Some k"
    using continuation_newsletter[OF that, of p]
    by (auto simp: option.map_comp comp_def reset_input_def)
  ultimately show ?thesis by blast
qed

theorem settled_fields_and_busy_witness:
  "value_of filled_page Name = Some (js '' Ada '') \<and>
   (\<forall>f. value_of (snd (contact_fetch_settled (Fulfilled 200) filled_page)) f = Some []) \<and>
   value_of (snd (contact_fetch_settled (Fulfilled 500) filled_page)) Name = Some (js '' Ada '') \<and>
   \<not> busy (snd (contact_fetch_settled (Fulfilled 200) filled_page)) \<and>
   \<not> busy (snd (contact_fetch_settled (Fulfilled 500) filled_page)) \<and>
   map_option input_value (newsletter_email (snd (newsletter_fetch_settled (Fulfilled 200) filled_page)))
     = Some [] \<and>
   newsletter_email (snd (newsletter_fetch_settled (Fulfilled 500) filled_page)) =
     newsletter_email filled_page"
proof -
  let ?a = "AwaitFetch [] ''POST'' [] []"
  let ?p = "snd (contact_fetch_settled (Fulfilled 200) filled_page)"
  have c: "continuation Contact ?a (FetchResult (Fulfilled n)) = Some (contact_fetch_settled (Fulfilled n))"
    "continuation Newsletter ?a (FetchResult (Fulfilled n)) = Some (newsletter_fetch_settled (Fulfilled n))"
    for n by simp_all
  have o: "fst (contact_fetch_settled (Fulfilled 200) filled_page) = Normal Success"
    "fst (contact_fetch_settled (Fulfilled 500) filled_page) \<noteq> Normal Success"
    "fst (newsletter_fetch_settled (Fulfilled 200) filled_page) = Normal Success"
    "fst (newsletter_fetch_settled (Fulfilled 500) filled_page) \<noteq> Normal Success"
    by (simp_all add: contact_fetch_ok contact_fetch_not_ok newsletter_fetch_eq resp_ok_def)
  have v: "value_of filled_page Name = Some (js '' Ada '')"
    "\<forall>f el. contact_field filled_page f = Some el \<longrightarrow> default_value el = []"
    "map_option default_value (newsletter_email filled_page) = Some []"
    by (auto simp: value_of_def example_defs)
  have d: "default_of filled_page f \<noteq> None" for f
    by (simp add: default_of_def example_defs)
  from settled_fields_and_busy[of ?a "FetchResult (Fulfilled 200)" "contact_fetch_settled (Fulfilled 200)" filled_page]
    c o v
  have 0: "(\<forall>f. value_of ?p f = default_of filled_page f) \<and>
     (\<forall>f el. contact_field ?p f = Some el \<longrightarrow> input_value el = []) \<and> \<not> busy ?p"
    by blast
  have "value_of ?p f = Some []" for f
  proof -
    from 0 d[of f] have "value_of ?p f \<noteq> None" by simp
    then obtain el where "contact_field ?p f = Some el"
      by (cases "contact_field ?p f") (auto simp: value_of_def)
    with 0 show ?thesis by (simp add: value_of_def)
  qed
  with 0 have 1: "(\<forall>f. value_of ?p f = Some []) \<and> \<not> busy ?p" by blast
  from settled_fields_and_busy[of ?a "FetchResult (Fulfilled 500)" "contact_fetch_settled (Fulfilled 500)" filled_page]
    settled_fields_and_busy[of ?a "FetchResult (Fulfilled 200)" "newsletter_fetch_settled (Fulfilled 200)" filled_page]
    settled_fields_and_busy[of ?a "FetchResult (Fulfilled 500)" "newsletter_fetch_settled (Fulfilled 500)" filled_page]
    c o v
  have 2: "value_of (snd (contact_fetch_settled (Fulfilled 500) filled_page)) Name = Some (js '' Ada '') \<and>
   \<not> busy (snd (contact_fetch_settled (Fulfilled 500) filled_page)) \<and>
   map_option input_value (newsletter_email (snd (newsletter_fetch_settled (Fulfilled 200) filled_page)))
     = Some [] \<and>
   newsletter_email (snd (newsletter_fetch_settled (Fulfilled 500) filled_page)) =
     newsletter_email filled_page"
    by simp
  from 1 2 v show ?thesis by blast
qed

text \<open>
  One submission on its own: after the submit event has been handled, and again after the
  operation it started has settled, at most one of the two banners is visible.
\<close>

lemma one_banner_per_submission:
  "\<not> both_banners_visible (snd (contact_submit env p)) \<and>
   (fst (contact_submit env p) = Normal (Pending a) \<and> continuation Contact a r = Some k \<longrightarrow>
      \<not> both_banners_visible (snd (k (snd (contact_submit env p)))))"
proof (cases "contact_valid p")
  case True
  from contact_submit_valid[OF True, of env] obtain ps where
    s: "contact_submit env p = (Normal (Pending (contact_send env ps)), showSpinner True (after_checks p))"
    by blast
  let ?q = "showSpinner True (after_checks p)"
  have q: "\<not> visible (contact_success ?q)" "\<not> visible (contact_error ?q)" by simp_all
  have "\<not> both_banners_visible (snd (k ?q))" if "continuation Contact a r = Some k"
    using continuation_contact[OF that, of ?q] q
    by (auto simp: both_banners_visible_def visible_toggleAlert)
  with s q show ?thesis by (simp add: both_banners_visible_def)
next
  case False
  then show ?thesis
    by (simp add: contact_submit_invalid both_banners_visible_def)
qed

subsection \<open>Validation of the contact form\<close>

lemma contact_field_validate:
  "contact_field (snd (validate p)) f =
     (if f \<in> set required
      then map_option
             (\<lambda>el. el\<lparr>is_invalid := (if f = Email then \<not> isEmailValid (trim (input_value el))
                                      else \<not> truthy (trim (input_value el)))\<rparr>)
             (contact_field p f)
      else contact_field p f)"
  by (cases f; cases "contact_field p f")
     (simp_all add: validate_def Let_def set_invalid_field required_def blank_def bad_email_def)

lemma contact_field_submit:
  "contact_field (snd (contact_submit env p)) = contact_field (snd (validate p))"
proof -
  have "contact_field (after_checks p) = contact_field (snd (validate p))"
    by (rule ext) (simp add: after_checks_def contact_field_validate)
  moreover have "contact_field (snd (contact_submit env p)) = contact_field (after_checks p)"
  proof (cases "contact_valid p")
    case True
    from contact_submit_valid[OF True, of env] show ?thesis by auto
  next
    case False
    then show ?thesis by (simp add: contact_submit_invalid)
  qed
  ultimately show ?thesis by simp
qed

lemma marked_validate:
  "marked (snd (validate p)) f =
     (case f of
        Name \<Rightarrow> contact_field p Name \<noteq> None \<and> blank Name p
      | Email \<Rightarrow> contact_field p Email \<noteq> None \<and> bad_email p
      | Subject \<Rightarrow> contact_field p Subject \<noteq> None \<and> blank Subject p
      | Message \<Rightarrow> contact_field p Message \<noteq> None \<and> blank Message p
      | _ \<Rightarrow> marked p f)"
  by (cases f; cases "contact_field p f")
     (simp_all add: marked_def contact_field_validate required_def blank_def bad_email_def)

lemma marked_submit:
  "marked (snd (contact_submit env p)) f = marked (snd (validate p)) f"
  by (simp add: marked_def contact_field_submit)

lemma isEmailValid_Nil [simp]: "\<not> isEmailValid []"
  by (simp add: isEmailValid_def toLowerCase_def email_regex_def)

lemma dispatch_submit_contact:
  "dispatch_submit env Contact w =
     (if contact_valid (doc w) then
        w\<lparr>doc := snd (contact_submit env (doc w)),
          tasks := tasks w @
            (case fst (contact_submit env (doc w)) of
               Normal (Pending a) \<Rightarrow> [\<lparr>owner = Contact, waits = a, since = clock w\<rparr>] | _ \<Rightarrow> [])\<rparr>
      else w\<lparr>doc := snd (contact_submit env (doc w))\<rparr>)"
proof (cases "contact_valid (doc w)")
  case True
  from contact_submit_valid[OF True, of env] show ?thesis
    using True by (auto simp: dispatch_submit_def submit_handler_def)
next
  case False
  then show ?thesis
    by (simp add: dispatch_submit_def submit_handler_def contact_submit_invalid)
qed

text \<open>
  C6: after a submit event of the contact form, a required field (name, email, subject,
  message) is marked invalid iff it is in the page and its trimmed value is empty or, for
  the email field, is not a valid address; the handler never marks or unmarks another
  field. The input is valid iff every required field is in the page and none is marked.
  When the four required fields are all empty, the check fails and exactly these four are
  marked (given that no other field was marked before). When the input is not valid, the
  handler ends there: nothing is sent and no operation is in flight because of it, the
  busy state is what it was, and the error banner, if the page has one, is visible.
\<close>

theorem contact_validation:
  "(\<forall>f\<in>set required.
      marked (snd (contact_submit env p)) f \<longleftrightarrow>
        (\<exists>el. contact_field p f = Some el \<and>
           (\<not> truthy (trim (input_value el)) \<or>
            (f = Email \<and> \<not> isEmailValid (trim (input_value el)))))) \<and>
   (\<forall>f. f \<notin> set required \<longrightarrow> marked (snd (contact_submit env p)) f = marked p f) \<and>
   (contact_valid p \<longleftrightarrow>
      (\<forall>f\<in>set required. contact_field p f \<noteq> None \<and> \<not> marked (snd (contact_submit env p)) f)) \<and>
   ((\<forall>f\<in>set required. \<exists>el. contact_field p f = Some el \<and> trim (input_value el) = []) \<and>
    (\<forall>f. f \<notin> set required \<longrightarrow> \<not> marked p f) \<longrightarrow>
      fst (validate p) = Normal False \<and> {f. marked (snd (contact_submit env p)) f} = set required) \<and>
   (\<not> contact_valid p \<longrightarrow>
      fst (contact_submit env p) = Normal Invalid \<and>
      busy (snd (contact_submit env p)) = busy p \<and>
      (contact_error p \<noteq> None \<longrightarrow> visible (contact_error (snd (contact_submit env p)))) \<and>
      (doc w = p \<longrightarrow> tasks (dispatch_submit env Contact w) = tasks w))"
proof -
  have 1: "\<forall>f\<in>set required.
      marked (snd (contact_submit env p)) f \<longleftrightarrow>
        (\<exists>el. contact_field p f = Some el \<and>
           (\<not> truthy (trim (input_value el)) \<or>
            (f = Email \<and> \<not> isEmailValid (trim (input_value el)))))"
    by (auto simp: required_def marked_submit marked_validate blank_def bad_email_def truthy_def
        split: option.splits)
  have 2: "\<forall>f. f \<notin> set required \<longrightarrow> marked (snd (contact_submit env p)) f = marked p f"
    by (auto simp: required_def marked_submit marked_validate split: field_id.splits)
  have 3: "contact_valid p \<longleftrightarrow>
      (\<forall>f\<in>set required. contact_field p f \<noteq> None \<and> \<not> marked (snd (contact_submit env p)) f)"
    by (auto simp: required_def marked_submit marked_validate contact_valid_def blank_def
        bad_email_def split: option.splits)
  have 4: "fst (validate p) = Normal False \<and> {f. marked (snd (contact_submit env p)) f} = set required"
    if a: "\<forall>f\<in>set required. \<exists>el. contact_field p f = Some el \<and> trim (input_value el) = []"
      and b: "\<forall>f. f \<notin> set required \<longrightarrow> \<not> marked p f"
  proof -
    from a have "\<not> contact_valid p"
      by (auto simp: required_def contact_valid_def blank_def truthy_def)
    moreover have "marked (snd (contact_submit env p)) f \<longleftrightarrow> f \<in> set required" for f
    proof (cases "f \<in> set required")
      case True
      with a 1 show ?thesis by (auto simp: truthy_def)
    next
      case False
      with b 2 show ?thesis by simp
    qed
    ultimately show ?thesis by (auto simp: fst_validate)
  qed
  have 5: "fst (contact_submit env p) = Normal Invalid \<and>
      busy (snd (contact_submit env p)) = busy p \<and>
      (contact_error p \<noteq> None \<longrightarrow> visible (contact_error (snd (contact_submit env p)))) \<and>
      (doc w = p \<longrightarrow> tasks (dispatch_submit env Contact w) = tasks w)"
    if "\<not> contact_valid p"
    using that
    by (auto simp: contact_submit_invalid busy_def dispatch_submit_contact after_checks_def
        toggleAlert_def setBanner_def getBanner_def split: option.splits)
  from 1 2 3 4 5 show ?thesis by blast
qed

subsection \<open>Examples\<close>

lemma dispatch_contact_valid:
  assumes "contact_valid (doc w)"
  shows "\<exists>ps. fst (build_payload (doc w)) = Normal ps \<and>
     dispatch_submit env Contact w =
       w\<lparr>doc := showSpinner True (after_checks (doc w)),
         tasks := tasks w @ [\<lparr>owner = Contact, waits = contact_send env ps, since = clock w\<rparr>]\<rparr>"
  using contact_submit_valid[OF assms, of env]
  by (auto simp: dispatch_submit_def submit_handler_def)

lemma submitted_world_eq:
  "\<exists>ps. submitted_world env =
     \<lparr>doc = showSpinner True (after_checks filled_page),
      tasks = [\<lparr>owner = Contact, waits = contact_send env ps, since = 0\<rparr>],
      clock = 0, uncaught = []\<rparr>"
proof -
  have "contact_valid (doc (idle_world filled_page))"
    by (simp add: idle_world_def contact_valid_filled)
  from dispatch_contact_valid[OF this, of env] show ?thesis
    by (auto simp: submitted_world_def idle_world_def)
qed

lemma takes_message_after_checks [simp]:
  "takes_message (contact_error (after_checks p)) = takes_message (contact_error p)"
  by (simp add: after_checks_def)

lemma mail_relay_rejection_example:
  "takes_message (contact_error filled_page) \<and>
   fst (contact_emailjs_settled Rejected filled_page) = Normal (ServiceFailure msg_contact_emailjs_failed) \<and>
   map_option uncaught (step env_service_only (Settled 0 (EmailjsResult Rejected))
     (submitted_world env_service_only)) = Some []"
proof -
  let ?w = "submitted_world env_service_only"
  obtain ps where w: "?w =
     \<lparr>doc = showSpinner True (after_checks filled_page),
      tasks = [\<lparr>owner = Contact, waits = contact_send env_service_only ps, since = 0\<rparr>],
      clock = 0, uncaught = []\<rparr>"
    using submitted_world_eq by blast
  have a: "contact_send env_service_only ps = AwaitEmailjsSend (js ''service_1'') [] ps []"
    by (simp add: contact_send_def env_service_only_def env_none_def truthy_def js_def)
  have s: "step env_service_only (Settled 0 (EmailjsResult Rejected)) ?w =
      Some (resume (contact_emailjs_settled Rejected) 0 ?w)"
    by (simp add: step_def w a due_def)
  have t: "takes_message (contact_error (doc ?w))"
    by (simp add: w takes_message_filled)
  from mail_relay_rejection[where p = filled_page and env = env_service_only and i = 0 and w = ?w
      and w' = "resume (contact_emailjs_settled Rejected) 0 ?w"
      and out = "ServiceFailure msg_contact_emailjs_failed"] s t takes_message_filled
  show ?thesis by (simp add: w)
qed

lemma empty_page_blank:
  "\<forall>f\<in>set required. \<exists>el. contact_field empty_page f = Some el \<and> trim (input_value el) = []"
  by (simp add: example_defs required_def)

lemma empty_page_unmarked: "\<forall>f. f \<notin> set required \<longrightarrow> \<not> marked empty_page f"
  by (simp add: example_defs marked_def)

theorem contact_validation_witness:
  "\<not> contact_valid empty_page \<and> fst (validate empty_page) = Normal False \<and>
   {f. marked (snd (contact_submit env_none empty_page)) f} = {Name, Email, Subject, Message} \<and>
   fst (contact_submit env_none empty_page) = Normal Invalid \<and>
   visible (contact_error (snd (contact_submit env_none empty_page))) \<and>
   tasks (dispatch_submit env_none Contact (idle_world empty_page)) = []"
proof -
  have e: "contact_error empty_page \<noteq> None" "doc (idle_world empty_page) = empty_page"
    "tasks (idle_world empty_page) = []"
    by (simp_all add: example_defs)
  have n: "\<not> contact_valid empty_page"
    by (simp add: contact_valid_def blank_def example_defs truthy_def)
  from contact_validation[of env_none empty_page "idle_world empty_page"]
    empty_page_blank empty_page_unmarked e n
  show ?thesis by (simp add: required_def)
qed

subsection \<open>The payload of the contact form\<close>

text \<open>
  C8, as stated, fails: the value of the input \<^verbatim>\<open>ref\<close> goes into the payload as it is.
  On the filled page that input holds a blank and an \<^verbatim>\<open>x\<close>, and so does the payload,
  where the trimmed value would be the \<^verbatim>\<open>x\<close> alone.
\<close>

theorem payload_ref_counterexample:
  "(case fst (build_payload filled_page) of Normal ps \<Rightarrow> map_of ps ''ref'' | Throw e \<Rightarrow> None) =
     Some (js '' x'') \<and>
   map_option trim (value_of filled_page Ref) = Some (js ''x'')"
  by (simp add: build_payload_values value_of_def example_defs)
     (simp add: trim_def js_def is_space_def)

text \<open>
  C8, amended: for every valid submission of the contact form the payload maps, in this
  order, \<^verbatim>\<open>name\<close>, \<^verbatim>\<open>email\<close>, \<^verbatim>\<open>phone\<close>, \<^verbatim>\<open>company\<close>, \<^verbatim>\<open>subject\<close> and \<^verbatim>\<open>message\<close>
  to the trimmed value of the input of that name and \<^verbatim>\<open>ref\<close> to the value of its input
  as it is (not trimmed); \<^verbatim>\<open>phone\<close>, \<^verbatim>\<open>company\<close> and \<^verbatim>\<open>ref\<close> are the empty string when
  the page has no such input. This is the payload the handler hands to EmailJS or to
  \<^verbatim>\<open>fetch\<close>.
\<close>

theorem contact_payload:
  "contact_valid p \<longrightarrow>
     (\<exists>n e s m.
        value_of p Name = Some n \<and> value_of p Email = Some e \<and> value_of p Subject = Some s \<and>
        value_of p Message = Some m \<and>
        fst (build_payload p) =
          Normal [(''name'', trim n), (''email'', trim e),
                  (''phone'', case value_of p Phone of None \<Rightarrow> [] | Some v \<Rightarrow> trim v),
                  (''company'', case value_of p Company of None \<Rightarrow> [] | Some v \<Rightarrow> trim v),
                  (''subject'', trim s), (''message'', trim m),
                  (''ref'', case value_of p Ref of None \<Rightarrow> [] | Some v \<Rightarrow> v)] \<and>
        fst (contact_submit env p) =
          Normal (Pending (contact_send env
            [(''name'', trim n), (''email'', trim e),
             (''phone'', case value_of p Phone of None \<Rightarrow> [] | Some v \<Rightarrow> trim v),
             (''company'', case value_of p Company of None \<Rightarrow> [] | Some v \<Rightarrow> trim v),
             (''subject'', trim s), (''message'', trim m),
             (''ref'', case value_of p Ref of None \<Rightarrow> [] | Some v \<Rightarrow> v)])))"
proof
  assume v: "contact_valid p"
  then obtain n e s m where f: "value_of p Name = Some n" "value_of p Email = Some e"
    "value_of p Subject = Some s" "value_of p Message = Some m"
    by (auto simp: contact_valid_def blank_def bad_email_def value_of_def split: option.splits)
  let ?ps = "[(''name'', trim n), (''email'', trim e),
                  (''phone'', case value_of p Phone of None \<Rightarrow> [] | Some v \<Rightarrow> trim v),
                  (''company'', case value_of p Company of None \<Rightarrow> [] | Some v \<Rightarrow> trim v),
                  (''subject'', trim s), (''message'', trim m),
                  (''ref'', case value_of p Ref of None \<Rightarrow> [] | Some v \<Rightarrow> v)]"
  have b: "fst (build_payload p) = Normal ?ps"
    using f by (simp add: build_payload_values split: option.splits)
  with contact_submit_valid[OF v, of env]
  have "fst (contact_submit env p) = Normal (Pending (contact_send env ?ps))" by auto
  with f b show "\<exists>n e s m.
        value_of p Name = Some n \<and> value_of p Email = Some e \<and> value_of p Subject = Some s \<and>
        value_of p Message = Some m \<and>
        fst (build_payload p) =
          Normal [(''name'', trim n), (''email'', trim e),
                  (''phone'', case value_of p Phone of None \<Rightarrow> [] | Some v \<Rightarrow> trim v),
                  (''company'', case value_of p Company of None \<Rightarrow> [] | Some v \<Rightarrow> trim v),
                  (''subject'', trim s), (''message'', trim m),
                  (''ref'', case value_of p Ref of None \<Rightarrow> [] | Some v \<Rightarrow> v)] \<and>
        fst (contact_submit env p) =
          Normal (Pending (contact_send env
            [(''name'', trim n), (''email'', trim e),
             (''phone'', case value_of p Phone of None \<Rightarrow> [] | Some v \<Rightarrow> trim v),
             (''company'', case value_of p Company of None \<Rightarrow> [] | Some v \<Rightarrow> trim v),
             (''subject'', trim s), (''message'', trim m),
             (''ref'', case value_of p Ref of None \<Rightarrow> [] | Some v \<Rightarrow> v)]))"
    by blast
qed

theorem contact_payload_witness:
  "contact_valid filled_page \<and>
   fst (contact_submit env_formspree filled_page) =
     Normal (Pending (AwaitFetch (js ''https://formspree.io/f/x'') ''POST''
       [(''Accept'', ''application/json''), (''Content-Type'', ''application/json'')]
       [(''name'', js ''Ada''), (''email'', js ''a@b.co''), (''phone'', js ''123''),
        (''company'', []), (''subject'', js ''Hello''), (''message'', js ''Good day.''),
        (''ref'', js '' x'')]))"
proof -
  have t: "trim (js '' Ada '') = js ''Ada''" "trim (js ''a@b.co'') = js ''a@b.co''"
    "trim (js '' 123'') = js ''123''" "trim (js ''Hello'') = js ''Hello''"
    "trim (js ''Good day.'') = js ''Good day.''"
    by (simp_all add: trim_def js_def is_space_def)
  have v: "value_of filled_page f =
     Some (case f of Name \<Rightarrow> js '' Ada '' | Email \<Rightarrow> js ''a@b.co'' | Phone \<Rightarrow> js '' 123''
        | Company \<Rightarrow> [] | Subject \<Rightarrow> js ''Hello'' | Message \<Rightarrow> js ''Good day.''
        | Ref \<Rightarrow> js '' x'')" for f
    by (simp add: value_of_def example_defs)
  have e: "truthy (js ''https://formspree.io/f/x'')" "\<not> truthy (EMAILJS_SERVICE_ID env_formspree)"
    "FORMSPREE_ENDPOINT env_formspree = js ''https://formspree.io/f/x''"
    by (simp_all add: env_formspree_def env_none_def truthy_def js_def)
  from contact_payload[of filled_page env_formspree] contact_valid_filled
  show ?thesis
    by (auto simp: v t e contact_send_def)
qed

subsection \<open>Demo mode\<close>

lemma newsletter_submit_demo:
  assumes "newsletter_valid p" "\<not> truthy (EMAILJS_SERVICE_ID env)" "\<not> truthy (FORMSPREE_ENDPOINT env)"
  shows "newsletter_submit env p =
     (Normal (Done Success), newsletter_reset (show_feedback msg_newsletter_demo p))"
  using assms by (auto simp: newsletter_valid_def newsletter_submit_def Let_def split: option.splits)

text \<open>
  C9, amended: when the service id and the endpoint are both empty, a valid submission uses
  the demo strategy in both forms. The contact handler sets a timer of 800 milliseconds and
  shows no success before it fires; the timer's callback always ends with \<open>Success\<close>,
  and it cannot run before 800 milliseconds have passed since the submit event. The
  newsletter handler ends with \<open>Success\<close> at once, with nothing left in flight.
\<close>

theorem demo_mode:
  "\<not> truthy (EMAILJS_SERVICE_ID env) \<and> \<not> truthy (FORMSPREE_ENDPOINT env) \<longrightarrow>
     (contact_valid p \<longrightarrow>
        selected Contact env p = Some DemoStrategy \<and>
        fst (contact_submit env p) = Normal (Pending (AwaitTimeout 800)) \<and>
        \<not> visible (contact_success (snd (contact_submit env p))) \<and>
        (doc w = p \<longrightarrow>
           tasks (dispatch_submit env Contact w) =
             tasks w @ [\<lparr>owner = Contact, waits = AwaitTimeout 800, since = clock w\<rparr>])) \<and>
     continuation Contact (AwaitTimeout 800) TimerResult = Some contact_timer_fired \<and>
     contact_timer_fired q = (Normal Success, show_success q) \<and>
     (i < length (tasks w') \<and> tasks w' ! i = \<lparr>owner = Contact, waits = AwaitTimeout 800, since = t\<rparr> \<longrightarrow>
        step env (Settled i TimerResult) w' =
          (if t + 800 \<le> clock w' then Some (resume contact_timer_fired i w') else None)) \<and>
     (newsletter_valid p \<longrightarrow>
        selected Newsletter env p = Some DemoStrategy \<and>
        newsletter_submit env p =
          (Normal (Done Success), newsletter_reset (show_feedback msg_newsletter_demo p)) \<and>
        (doc w = p \<longrightarrow> tasks (dispatch_submit env Newsletter w) = tasks w))"
proof
  assume e: "\<not> truthy (EMAILJS_SERVICE_ID env) \<and> \<not> truthy (FORMSPREE_ENDPOINT env)"
  have c: "selected Contact env p = Some DemoStrategy \<and>
        fst (contact_submit env p) = Normal (Pending (AwaitTimeout 800)) \<and>
        \<not> visible (contact_success (snd (contact_submit env p))) \<and>
        (doc w = p \<longrightarrow>
           tasks (dispatch_submit env Contact w) =
             tasks w @ [\<lparr>owner = Contact, waits = AwaitTimeout 800, since = clock w\<rparr>])"
    if v: "contact_valid p"
  proof -
    from contact_submit_valid[OF v, of env] e
    have s: "contact_submit env p = (Normal (Pending (AwaitTimeout 800)), showSpinner True (after_checks p))"
      by (auto simp: contact_send_def)
    then show ?thesis
      using v e by (auto simp: selected_contact dispatch_submit_def submit_handler_def)
  qed
  have t: "step env (Settled i TimerResult) w' =
          (if t + 800 \<le> clock w' then Some (resume contact_timer_fired i w') else None)"
    if "i < length (tasks w') \<and> tasks w' ! i = \<lparr>owner = Contact, waits = AwaitTimeout 800, since = t\<rparr>"
    using that by (simp add: step_def due_def)
  have n: "selected Newsletter env p = Some DemoStrategy \<and>
        newsletter_submit env p =
          (Normal (Done Success), newsletter_reset (show_feedback msg_newsletter_demo p)) \<and>
        (doc w = p \<longrightarrow> tasks (dispatch_submit env Newsletter w) = tasks w)"
    if v: "newsletter_valid p"
    using newsletter_submit_demo[OF v] e
    by (auto simp: selected_def submit_handler_def dispatch_submit_def)
  from c t n show "(contact_valid p \<longrightarrow>
        selected Contact env p = Some DemoStrategy \<and>
        fst (contact_submit env p) = Normal (Pending (AwaitTimeout 800)) \<and>
        \<not> visible (contact_success (snd (contact_submit env p))) \<and>
        (doc w = p \<longrightarrow>
           tasks (dispatch_submit env Contact w) =
             tasks w @ [\<lparr>owner = Contact, waits = AwaitTimeout 800, since = clock w\<rparr>])) \<and>
     continuation Contact (AwaitTimeout 800) TimerResult = Some contact_timer_fired \<and>
     contact_timer_fired q = (Normal Success, show_success q) \<and>
     (i < length (tasks w') \<and> tasks w' ! i = \<lparr>owner = Contact, waits = AwaitTimeout 800, since = t\<rparr> \<longrightarrow>
        step env (Settled i TimerResult) w' =
          (if t + 800 \<le> clock w' then Some (resume contact_timer_fired i w') else None)) \<and>
     (newsletter_valid p \<longrightarrow>
        selected Newsletter env p = Some DemoStrategy \<and>
        newsletter_submit env p =
          (Normal (Done Success), newsletter_reset (show_feedback msg_newsletter_demo p)) \<and>
        (doc w = p \<longrightarrow> tasks (dispatch_submit env Newsletter w) = tasks w))"
    by (simp add: contact_timer_fired_eq)
qed

theorem demo_mode_witness:
  "contact_valid filled_page \<and> newsletter_valid filled_page \<and>
   tasks (submitted_world env_none) = [\<lparr>owner = Contact, waits = AwaitTimeout 800, since = 0\<rparr>] \<and>
   run env_none [Tick 799, Settled 0 TimerResult] (submitted_world env_none) = None \<and>
   run env_none [Tick 800, Settled 0 TimerResult] (submitted_world env_none) =
     Some (resume contact_timer_fired 0 ((submitted_world env_none)\<lparr>clock := 800\<rparr>)) \<and>
   fst (newsletter_submit env_none filled_page) = Normal (Done Success)"
proof -
  let ?s = "submitted_world env_none"
  have e: "\<not> truthy (EMAILJS_SERVICE_ID env_none) \<and> \<not> truthy (FORMSPREE_ENDPOINT env_none)"
    by (simp add: env_none_def truthy_def)
  obtain ps where "?s =
     \<lparr>doc = showSpinner True (after_checks filled_page),
      tasks = [\<lparr>owner = Contact, waits = contact_send env_none ps, since = 0\<rparr>],
      clock = 0, uncaught = []\<rparr>"
    using submitted_world_eq by blast
  then have w: "tasks ?s = [\<lparr>owner = Contact, waits = AwaitTimeout 800, since = 0\<rparr>]" "clock ?s = 0"
    using e by (simp_all add: contact_send_def)
  have k: "step env_none (Tick n) ?s = Some (?s\<lparr>clock := n\<rparr>)" for n
    by (simp add: step_def w)
  from demo_mode[of env_none filled_page "idle_world filled_page" filled_page 0 "?s\<lparr>clock := 799\<rparr>" 0]
    demo_mode[of env_none filled_page "idle_world filled_page" filled_page 0 "?s\<lparr>clock := 800\<rparr>" 0]
    e w k contact_valid_filled newsletter_valid_filled
  show ?thesis by simp
qed

subsection \<open>The busy guard\<close>

lemma filter_remove_nth_other:
  "i < length xs \<Longrightarrow> \<not> P (xs ! i) \<Longrightarrow> filter P (remove_nth i xs) = filter P xs"
proof -
  assume i: "i < length xs" and n: "\<not> P (xs ! i)"
  have "xs = take i xs @ xs ! i # drop (Suc i) xs"
    using i by (simp add: id_take_nth_drop)
  then have "filter P xs = filter P (take i xs) @ filter P (xs ! i # drop (Suc i) xs)"
    by (metis filter_append)
  with n show ?thesis by (simp add: remove_nth_def)
qed

lemma filter_remove_nth_same:
  "i < length xs \<Longrightarrow> P (xs ! i) \<Longrightarrow>
   length (filter P (remove_nth i xs)) = length (filter P xs) - 1"
proof -
  assume i: "i < length xs" and n: "P (xs ! i)"
  have "xs = take i xs @ xs ! i # drop (Suc i) xs"
    using i by (simp add: id_take_nth_drop)
  then have "filter P xs = filter P (take i xs) @ filter P (xs ! i # drop (Suc i) xs)"
    by (metis filter_append)
  with n show ?thesis by (simp add: remove_nth_def)
qed

lemma newsletter_submit_frame [simp]:
  "contact_submit_disabled (snd (newsletter_submit env p)) = contact_submit_disabled p"
  by (simp add: newsletter_submit_def Let_def show_feedback_alert_def split: option.splits)

lemma in_flight_dispatch_newsletter:
  "in_flight Contact (dispatch_submit env Newsletter w) = in_flight Contact w"
  "contact_submit_disabled (doc (dispatch_submit env Newsletter w)) = contact_submit_disabled (doc w)"
proof -
  obtain c p' where r: "newsletter_submit env (doc w) = (c, p')" by (cases "newsletter_submit env (doc w)")
  then have "contact_submit_disabled p' = contact_submit_disabled (doc w)"
    using newsletter_submit_frame[of env "doc w"] by simp
  with r show "in_flight Contact (dispatch_submit env Newsletter w) = in_flight Contact w"
    "contact_submit_disabled (doc (dispatch_submit env Newsletter w)) = contact_submit_disabled (doc w)"
    by (auto simp: dispatch_submit_def submit_handler_def in_flight_def
        split: completion.splits progress.splits)
qed

lemma guard_dispatch_contact:
  assumes "busy_guard w" "in_flight Contact w = []"
  shows "busy_guard (dispatch_submit env Contact w)"
proof (cases "contact_valid (doc w)")
  case True
  from dispatch_contact_valid[OF True, of env] assms show ?thesis
    by (auto simp: busy_guard_def in_flight_def)
next
  case False
  with assms show ?thesis
    by (simp add: dispatch_submit_contact contact_submit_invalid busy_guard_def in_flight_def)
qed

lemma disabled_continuation_contact:
  assumes "continuation Contact a r = Some k"
  shows "contact_submit_disabled (snd (k p)) = map_option (\<lambda>_. False) (contact_submit_disabled p)"
  using continuation_contact[OF assms, of p]
  by (auto simp: show_success_def show_error_def)

lemma disabled_continuation_newsletter:
  assumes "continuation Newsletter a r = Some k"
  shows "contact_submit_disabled (snd (k p)) = contact_submit_disabled p"
  using continuation_newsletter[OF assms, of p] by auto

lemma resume_doc_tasks:
  "doc (resume k i w) = snd (k (doc w))" "tasks (resume k i w) = remove_nth i (tasks w)"
  by (simp_all add: resume_def split: prod.splits completion.splits)

lemma guard_resume:
  assumes g: "busy_guard w" and i: "i < length (tasks w)"
    and k: "continuation (owner (tasks w ! i)) (waits (tasks w ! i)) r = Some k"
  shows "busy_guard (resume k i w)"
proof (cases "owner (tasks w ! i)")
  case Contact
  let ?P = "\<lambda>t. owner t = Contact"
  from Contact i have "length (filter ?P (remove_nth i (tasks w))) = length (filter ?P (tasks w)) - 1"
    by (simp add: filter_remove_nth_same)
  with g have e: "in_flight Contact (resume k i w) = []"
    by (simp add: busy_guard_def in_flight_def resume_doc_tasks)
  from k Contact have "contact_submit_disabled (snd (k (doc w))) =
      map_option (\<lambda>_. False) (contact_submit_disabled (doc w))"
    by (simp add: disabled_continuation_contact)
  with g e show ?thesis
    by (simp add: busy_guard_def resume_doc_tasks)
next
  case Newsletter
  let ?P = "\<lambda>t. owner t = Contact"
  from Newsletter i have "filter ?P (remove_nth i (tasks w)) = filter ?P (tasks w)"
    by (simp add: filter_remove_nth_other)
  then have e: "in_flight Contact (resume k i w) = in_flight Contact w"
    by (simp add: in_flight_def resume_doc_tasks)
  from k Newsletter have "contact_submit_disabled (snd (k (doc w))) = contact_submit_disabled (doc w)"
    by (simp add: disabled_continuation_newsletter)
  with g e show ?thesis
    by (simp add: busy_guard_def resume_doc_tasks)
qed

lemma guard_step:
  assumes g: "busy_guard w" and ev: "ev \<noteq> Submit Contact" and s: "step env ev w = Some w'"
  shows "busy_guard w'"
proof (cases ev)
  case (Submit f)
  with ev have "f = Newsletter" by (cases f) auto
  with Submit s g show ?thesis
    by (auto simp: step_def busy_guard_def in_flight_dispatch_newsletter)
next
  case (UserSubmit f)
  show ?thesis
  proof (cases f)
    case Contact
    with UserSubmit s have "contact_submit_disabled (doc w) \<noteq> Some True"
      and w': "w' = dispatch_submit env Contact w"
      by (auto simp: step_def user_can_submit_def split: if_splits)
    with g have "in_flight Contact w = []" by (auto simp: busy_guard_def)
    with g w' show ?thesis by (simp add: guard_dispatch_contact)
  next
    case Newsletter
    with UserSubmit s g show ?thesis
      by (auto simp: step_def busy_guard_def in_flight_dispatch_newsletter split: if_splits)
  qed
next
  case (Settled i r)
  with s obtain k where "i < length (tasks w)"
    "continuation (owner (tasks w ! i)) (waits (tasks w ! i)) r = Some k" "w' = resume k i w"
    by (auto simp: step_def split: if_splits option.splits)
  with g show ?thesis by (simp add: guard_resume)
next
  case (Tick n)
  with s g show ?thesis
    by (auto simp: step_def busy_guard_def in_flight_def)
qed

lemma guard_run:
  "busy_guard w \<Longrightarrow> Submit Contact \<notin> set evs \<Longrightarrow> run env evs w = Some w' \<Longrightarrow> busy_guard w'"
proof (induction evs arbitrary: w)
  case Nil
  then show ?case by simp
next
  case (Cons ev evs)
  from Cons.prems obtain w1 where 1: "step env ev w = Some w1" and 2: "run env evs w1 = Some w'"
    by (auto split: option.splits)
  from Cons.prems have "ev \<noteq> Submit Contact" by auto
  with Cons.prems 1 have "busy_guard w1" using guard_step by blast
  with Cons.IH[of w1] Cons.prems 2 show ?case by simp
qed


text \<open>
  C2, as stated, fails. The newsletter form has no busy state: while its first request is
  in flight, the user submitting again starts a second request. The contact handler does
  not look at the busy state either: a submit event that reaches it while a request is in
  flight starts another.
\<close>

theorem second_submit_counterexample:
  "map_option (\<lambda>w. length (in_flight Newsletter w))
     (run env_formspree [UserSubmit Newsletter, UserSubmit Newsletter] (idle_world filled_page)) = Some 2 \<and>
   map_option (\<lambda>w. length (in_flight Contact w))
     (run env_formspree [Submit Contact, Submit Contact] (idle_world filled_page)) = Some 2"
proof -
  have e: "truthy (FORMSPREE_ENDPOINT env_formspree)"
    by (simp add: env_formspree_def env_none_def truthy_def js_def)
  have n: "\<exists>a. newsletter_submit env_formspree filled_page = (Normal (Pending a), filled_page)"
    using newsletter_valid_filled e
    by (auto simp: newsletter_valid_def newsletter_submit_def Let_def split: option.splits)
  then obtain a where a: "newsletter_submit env_formspree filled_page = (Normal (Pending a), filled_page)"
    by blast
  have 1: "map_option (\<lambda>w. length (in_flight Newsletter w))
     (run env_formspree [UserSubmit Newsletter, UserSubmit Newsletter] (idle_world filled_page)) = Some 2"
    by (simp add: step_def user_can_submit_def dispatch_submit_def submit_handler_def idle_world_def a
        in_flight_def)
  let ?w = "idle_world filled_page"
  have v: "contact_valid (doc ?w)" by (simp add: idle_world_def contact_valid_filled)
  from dispatch_contact_valid[OF v, of env_formspree] obtain ps where
    d: "dispatch_submit env_formspree Contact ?w =
       ?w\<lparr>doc := showSpinner True (after_checks (doc ?w)),
         tasks := tasks ?w @ [\<lparr>owner = Contact, waits = contact_send env_formspree ps, since = clock ?w\<rparr>]\<rparr>"
    by blast
  let ?w1 = "dispatch_submit env_formspree Contact ?w"
  have "contact_valid (doc ?w1)"
    unfolding d using v by (simp add: contact_valid_cong[of "showSpinner True (after_checks (doc ?w))" "doc ?w"])
  from dispatch_contact_valid[OF this, of env_formspree] obtain ps' where
    d': "dispatch_submit env_formspree Contact ?w1 =
       ?w1\<lparr>doc := showSpinner True (after_checks (doc ?w1)),
         tasks := tasks ?w1 @ [\<lparr>owner = Contact, waits = contact_send env_formspree ps', since = clock ?w1\<rparr>]\<rparr>"
    by blast
  have "length (in_flight Contact (dispatch_submit env_formspree Contact ?w1)) = 2"
    unfolding d' unfolding d by (simp add: in_flight_def idle_world_def)
  then have 2: "map_option (\<lambda>w. length (in_flight Contact w))
     (run env_formspree [Submit Contact, Submit Contact] (idle_world filled_page)) = Some 2"
    by (simp add: step_def)
  from 1 2 show ?thesis by blast
qed

lemma contact_valid_submitted [simp]:
  "contact_valid (showSpinner True (after_checks p)) = contact_valid p"
  by (rule contact_valid_cong) simp

lemma dispatch_newsletter_send:
  assumes v: "newsletter_valid (doc v)"
    and b: "truthy (FORMSPREE_ENDPOINT env) \<or> truthy (EMAILJS_SERVICE_ID env) \<and> window_emailjs env"
  shows "length (in_flight Newsletter (dispatch_submit env Newsletter v)) =
     Suc (length (in_flight Newsletter v))"
proof -
  from newsletter_submit_valid[OF v, of env] b obtain a where
    "fst (newsletter_submit env (doc v)) = Normal (Pending a)"
    by (auto split: if_splits)
  then obtain p' where "newsletter_submit env (doc v) = (Normal (Pending a), p')"
    by (cases "newsletter_submit env (doc v)") auto
  then show ?thesis
    by (simp add: dispatch_submit_def submit_handler_def in_flight_def)
qed

lemma dispatch_contact_send:
  assumes "contact_valid (doc v)"
  shows "length (in_flight Contact (dispatch_submit env Contact v)) = Suc (length (in_flight Contact v))"
  using dispatch_contact_valid[OF assms, of env] by (auto simp: in_flight_def)

text \<open>
  C2, amended: in the contact form, when the submit control is in the page and the form is
  submitted by the user activating that control (a browser does not let a disabled control
  submit), the control is disabled if and only if an operation of the form is in flight,
  and at most one is in flight at any time: while one is, the user cannot submit again, and
  no second send is issued until the first has settled. This holds after every sequence of
  such submissions, submissions of the newsletter form, settlements and clock ticks. The
  handler itself does not look at the busy state: a submit event that reaches it with valid
  input starts a send, whatever is in flight. The newsletter form has no busy state: the
  user can always submit it, its handler leaves the submit control of the contact form as
  it is, and with the endpoint set, or with the service id set and \<^verbatim>\<open>window.emailjs\<close>
  defined, each valid submit event starts a send, whatever is in flight.
\<close>

theorem busy_guard_invariant:
  "(busy_guard w \<and> Submit Contact \<notin> set evs \<and> run env evs w = Some w' \<longrightarrow>
      contact_submit_disabled (doc w') = Some (in_flight Contact w' \<noteq> []) \<and>
      length (in_flight Contact w') \<le> 1 \<and>
      (in_flight Contact w' \<noteq> [] \<longrightarrow> step env (UserSubmit Contact) w' = None)) \<and>
   step env (Submit Contact) v = Some (dispatch_submit env Contact v) \<and>
   (contact_valid (doc v) \<longrightarrow>
      length (in_flight Contact (dispatch_submit env Contact v)) = Suc (length (in_flight Contact v))) \<and>
   step env (UserSubmit Newsletter) v = Some (dispatch_submit env Newsletter v) \<and>
   contact_submit_disabled (doc (dispatch_submit env Newsletter v)) = contact_submit_disabled (doc v) \<and>
   (newsletter_valid (doc v) \<and>
    (truthy (FORMSPREE_ENDPOINT env) \<or> truthy (EMAILJS_SERVICE_ID env) \<and> window_emailjs env) \<longrightarrow>
      length (in_flight Newsletter (dispatch_submit env Newsletter v)) =
        Suc (length (in_flight Newsletter v)))"
proof -
  have 1: "contact_submit_disabled (doc w') = Some (in_flight Contact w' \<noteq> []) \<and>
      length (in_flight Contact w') \<le> 1 \<and>
      (in_flight Contact w' \<noteq> [] \<longrightarrow> step env (UserSubmit Contact) w' = None)"
    if a: "busy_guard w \<and> Submit Contact \<notin> set evs \<and> run env evs w = Some w'"
  proof -
    from a have g: "busy_guard w'" using guard_run by blast
    then have "in_flight Contact w' \<noteq> [] \<longrightarrow> step env (UserSubmit Contact) w' = None"
      by (simp add: busy_guard_def step_def user_can_submit_def)
    with g show ?thesis by (simp add: busy_guard_def)
  qed
  have 2: "step env (Submit Contact) v = Some (dispatch_submit env Contact v)"
    "step env (UserSubmit Newsletter) v = Some (dispatch_submit env Newsletter v)"
    by (simp_all add: step_def user_can_submit_def)
  from 1 2 dispatch_contact_send[of v env] dispatch_newsletter_send[of v env]
    in_flight_dispatch_newsletter(2)[of env v]
  show ?thesis by blast
qed

theorem busy_guard_invariant_witness:
  "busy_guard (idle_world filled_page) \<and>
   (\<exists>w'. run env_formspree
            [UserSubmit Contact, Tick 5, Settled 0 (FetchResult (Fulfilled 500)), UserSubmit Contact]
            (idle_world filled_page) = Some w' \<and>
         contact_submit_disabled (doc w') = Some True \<and> length (in_flight Contact w') = 1 \<and>
         step env_formspree (UserSubmit Contact) w' = None) \<and>
   contact_valid (doc (submitted_world env_formspree)) \<and>
   length (in_flight Contact (dispatch_submit env_formspree Contact (submitted_world env_formspree))) = 2 \<and>
   newsletter_valid (doc (submitted_world env_formspree)) \<and>
   length (in_flight Newsletter
     (dispatch_submit env_formspree Newsletter (submitted_world env_formspree))) = 1"
proof -
  let ?env = env_formspree
  let ?w0 = "idle_world filled_page"
  let ?k = "contact_fetch_settled (Fulfilled 500)"
  let ?evs = "[UserSubmit Contact, Tick 5, Settled 0 (FetchResult (Fulfilled 500)), UserSubmit Contact]"
  let ?v = "submitted_world ?env"
  have g0: "busy_guard ?w0"
    by (simp add: busy_guard_def in_flight_def example_defs)
  have e: "truthy (FORMSPREE_ENDPOINT ?env)" "\<not> truthy (EMAILJS_SERVICE_ID ?env)"
    by (simp_all add: env_formspree_def env_none_def truthy_def js_def)
  have v0: "contact_valid (doc ?w0)" by (simp add: idle_world_def contact_valid_filled)
  define w1 where "w1 = dispatch_submit ?env Contact ?w0"
  from dispatch_contact_valid[OF v0, of ?env] obtain ps where
    d1: "w1 = ?w0\<lparr>doc := showSpinner True (after_checks (doc ?w0)),
         tasks := tasks ?w0 @ [\<lparr>owner = Contact, waits = contact_send ?env ps, since = clock ?w0\<rparr>]\<rparr>"
    unfolding w1_def by blast
  have s1: "step ?env (UserSubmit Contact) ?w0 = Some w1"
    by (simp add: step_def user_can_submit_def w1_def example_defs)
  define w2 where "w2 = w1\<lparr>clock := clock w1 + 5\<rparr>"
  have s2: "step ?env (Tick 5) w1 = Some w2" by (simp add: step_def w2_def)
  have t2: "tasks w2 = [\<lparr>owner = Contact, waits = contact_send ?env ps, since = 0\<rparr>]"
    by (simp add: w2_def d1 idle_world_def)
  have c: "continuation Contact (contact_send ?env ps) (FetchResult (Fulfilled 500)) = Some ?k"
    using e by (simp add: contact_send_def)
  define w3 where "w3 = resume ?k 0 w2"
  have s3: "step ?env (Settled 0 (FetchResult (Fulfilled 500))) w2 = Some w3"
    using e by (simp add: step_def t2 c w3_def due_def contact_send_def)
  have v3: "contact_valid (doc w3)"
  proof -
    have "value_of (snd (?k p)) f = value_of p f" for f p
      by (simp add: contact_fetch_not_ok resp_ok_def)
    then have "value_of (doc w3) f = value_of filled_page f" for f
      by (simp add: w3_def resume_doc_tasks w2_def d1 idle_world_def)
    then show ?thesis
      using contact_valid_cong[of "doc w3" filled_page] contact_valid_filled by simp
  qed
  have b3: "contact_submit_disabled (doc w3) = Some False"
    by (simp add: w3_def resume_doc_tasks disabled_continuation_contact[OF c] w2_def d1
        idle_world_def filled_page_def)
  have t3: "tasks w3 = []" by (simp add: w3_def resume_doc_tasks t2 remove_nth_def)
  define w4 where "w4 = dispatch_submit ?env Contact w3"
  have s4: "step ?env (UserSubmit Contact) w3 = Some w4"
    by (simp add: step_def user_can_submit_def b3 w4_def)
  have r: "run ?env ?evs ?w0 = Some w4"
    by (simp add: s1 s2 s3 s4)
  from dispatch_contact_valid[OF v3, of ?env] t3 b3
  have f4: "length (in_flight Contact w4) = 1"
    unfolding w4_def by (auto simp: in_flight_def)
  have v: "contact_valid (doc ?v)" "newsletter_valid (doc ?v)"
    "length (in_flight Contact ?v) = 1" "length (in_flight Newsletter ?v) = 0"
  proof -
    have vw: "?v = w1" by (simp add: submitted_world_def w1_def)
    show "contact_valid (doc ?v)" "newsletter_valid (doc ?v)"
      "length (in_flight Contact ?v) = 1" "length (in_flight Newsletter ?v) = 0"
      unfolding vw d1
      using contact_valid_filled newsletter_valid_filled
      by (simp_all add: idle_world_def in_flight_def newsletter_valid_def)
  qed
  from busy_guard_invariant[where w = ?w0 and evs = ?evs and env = ?env and w' = w4 and v = ?v]
    g0 r f4 v e
  have "contact_submit_disabled (doc w4) = Some True \<and> step ?env (UserSubmit Contact) w4 = None \<and>
    length (in_flight Contact (dispatch_submit ?env Contact ?v)) = 2 \<and>
    length (in_flight Newsletter (dispatch_submit ?env Newsletter ?v)) = 1"
    by auto
  with g0 r f4 v show ?thesis by blast
qed

subsection \<open>The banners\<close>

lemma newsletter_submit_banners [simp]:
  "contact_success (snd (newsletter_submit env p)) = contact_success p"
  "contact_error (snd (newsletter_submit env p)) = contact_error p"
  by (simp_all add: newsletter_submit_def Let_def show_feedback_alert_def split: option.splits)

lemma doc_dispatch: "doc (dispatch_submit env f w) = snd (submit_handler f env (doc w))"
  by (simp add: dispatch_submit_def split: prod.splits completion.splits progress.splits)

lemma banners_continuation_newsletter:
  assumes "continuation Newsletter a r = Some k"
  shows "contact_success (snd (k p)) = contact_success p" "contact_error (snd (k p)) = contact_error p"
  using continuation_newsletter[OF assms, of p] by auto

lemma banner_dispatch_contact:
  assumes "in_flight Contact w = []"
  shows "banner_guard (dispatch_submit env Contact w)"
proof (cases "contact_valid (doc w)")
  case True
  from dispatch_contact_valid[OF True, of env] show ?thesis
    by (auto simp: banner_guard_def both_banners_visible_def)
next
  case False
  with assms show ?thesis
    by (simp add: dispatch_submit_contact contact_submit_invalid banner_guard_def
        both_banners_visible_def in_flight_def)
qed

lemma banner_resume:
  assumes g: "busy_guard w" and b: "banner_guard w" and i: "i < length (tasks w)"
    and k: "continuation (owner (tasks w ! i)) (waits (tasks w ! i)) r = Some k"
  shows "banner_guard (resume k i w)"
proof (cases "owner (tasks w ! i)")
  case Contact
  from guard_resume[OF g i k] have g': "busy_guard (resume k i w)" .
  let ?P = "\<lambda>t. owner t = Contact"
  from Contact i have "length (filter ?P (remove_nth i (tasks w))) = length (filter ?P (tasks w)) - 1"
    by (simp add: filter_remove_nth_same)
  with g have e: "in_flight Contact (resume k i w) = []"
    by (simp add: busy_guard_def in_flight_def resume_doc_tasks)
  from Contact i have "tasks w ! i \<in> set (in_flight Contact w)"
    by (simp add: in_flight_def)
  then have "in_flight Contact w \<noteq> []" by auto
  with b have h: "\<not> visible (contact_success (doc w))" "\<not> visible (contact_error (doc w))"
    by (simp_all add: banner_guard_def)
  from k Contact have "continuation Contact (waits (tasks w ! i)) r = Some k" by simp
  from continuation_contact[OF this, of "doc w"] h
  have "\<not> both_banners_visible (snd (k (doc w)))"
    by (auto simp: both_banners_visible_def visible_toggleAlert)
  with e show ?thesis by (simp add: banner_guard_def resume_doc_tasks)
next
  case Newsletter
  let ?P = "\<lambda>t. owner t = Contact"
  from Newsletter i have "filter ?P (remove_nth i (tasks w)) = filter ?P (tasks w)"
    by (simp add: filter_remove_nth_other)
  then have e: "in_flight Contact (resume k i w) = in_flight Contact w"
    by (simp add: in_flight_def resume_doc_tasks)
  from k Newsletter have "continuation Newsletter (waits (tasks w ! i)) r = Some k" by simp
  from banners_continuation_newsletter[OF this, of "doc w"] b e show ?thesis
    by (simp add: banner_guard_def both_banners_visible_def resume_doc_tasks)
qed

lemma banner_step:
  assumes g: "busy_guard w" and b: "banner_guard w" and ev: "ev \<noteq> Submit Contact"
    and s: "step env ev w = Some w'"
  shows "banner_guard w'"
proof (cases ev)
  case (Submit f)
  with ev have "f = Newsletter" by (cases f) auto
  with Submit s b show ?thesis
    by (auto simp: step_def banner_guard_def both_banners_visible_def in_flight_dispatch_newsletter
        doc_dispatch submit_handler_def)
next
  case (UserSubmit f)
  show ?thesis
  proof (cases f)
    case Contact
    with UserSubmit s have "contact_submit_disabled (doc w) \<noteq> Some True"
      and w': "w' = dispatch_submit env Contact w"
      by (auto simp: step_def user_can_submit_def split: if_splits)
    with g have "in_flight Contact w = []" by (auto simp: busy_guard_def)
    with w' show ?thesis by (simp add: banner_dispatch_contact)
  next
    case Newsletter
    with UserSubmit s b show ?thesis
      by (auto simp: step_def banner_guard_def both_banners_visible_def in_flight_dispatch_newsletter
          doc_dispatch submit_handler_def split: if_splits)
  qed
next
  case (Settled i r)
  with s obtain k where "i < length (tasks w)"
    "continuation (owner (tasks w ! i)) (waits (tasks w ! i)) r = Some k" "w' = resume k i w"
    by (auto simp: step_def split: if_splits option.splits)
  with g b show ?thesis by (simp add: banner_resume)
next
  case (Tick n)
  with s b show ?thesis
    by (auto simp: step_def banner_guard_def in_flight_def)
qed

lemma banner_run:
  "busy_guard w \<Longrightarrow> banner_guard w \<Longrightarrow> Submit Contact \<notin> set evs \<Longrightarrow>
   run env evs w = Some w' \<Longrightarrow> banner_guard w'"
proof (induction evs arbitrary: w)
  case Nil
  then show ?case by simp
next
  case (Cons ev evs)
  from Cons.prems obtain w1 where 1: "step env ev w = Some w1" and 2: "run env evs w1 = Some w'"
    by (auto split: option.splits)
  from Cons.prems have n: "ev \<noteq> Submit Contact" by auto
  from guard_step[OF Cons.prems(1) n 1] have g: "busy_guard w1" .
  from banner_step[OF Cons.prems(1,2) n 1] have b: "banner_guard w1" .
  from Cons.IH[OF g b _ 2] Cons.prems show ?case by simp
qed

text \<open>
  C10, amended: when no other submission of the contact form overlaps it, a submit event
  of the contact form leaves at most one of the two banners visible, after the event has
  been handled and again after the operation it started has settled and the rest of the
  handler has run, whatever the page showed before. With the busy guard in place (the
  submit control is in the page and submissions of the contact form come from it, so that
  no two overlap), at most one banner is visible after every sequence of events, and none
  while an operation of the form is in flight.
\<close>

theorem one_banner_at_most:
  "\<not> both_banners_visible (snd (contact_submit env p)) \<and>
   (fst (contact_submit env p) = Normal (Pending a) \<and> continuation Contact a r = Some k \<longrightarrow>
      \<not> both_banners_visible (snd (k (snd (contact_submit env p))))) \<and>
   (busy_guard w \<and> banner_guard w \<and> Submit Contact \<notin> set evs \<and> run env evs w = Some w' \<longrightarrow>
      \<not> both_banners_visible (doc w') \<and>
      (in_flight Contact w' \<noteq> [] \<longrightarrow>
         \<not> visible (contact_success (doc w')) \<and> \<not> visible (contact_error (doc w'))))"
  using one_banner_per_submission[of env p a r k] banner_run[of w evs env w']
  by (auto simp: banner_guard_def)

theorem one_banner_at_most_witness:
  "both_banners_visible stale_page \<and>
   \<not> both_banners_visible (snd (contact_submit env_formspree stale_page)) \<and>
   \<not> both_banners_visible
       (snd (contact_fetch_settled (Fulfilled 500) (snd (contact_submit env_formspree stale_page)))) \<and>
   busy_guard (idle_world filled_page) \<and> banner_guard (idle_world filled_page) \<and>
   (\<exists>w'. run env_formspree [UserSubmit Contact] (idle_world filled_page) = Some w' \<and>
         in_flight Contact w' \<noteq> [] \<and> \<not> visible (contact_success (doc w')) \<and>
         \<not> visible (contact_error (doc w')))"
proof -
  have v: "contact_valid stale_page"
    unfolding stale_page_def
    by (rule contact_valid_cong[THEN iffD2, OF _ contact_valid_filled]) (simp add: value_of_def)
  from contact_submit_valid[OF v, of env_formspree] obtain ps where
    s: "fst (contact_submit env_formspree stale_page) = Normal (Pending (contact_send env_formspree ps))"
    by auto
  have c: "continuation Contact (contact_send env_formspree ps) (FetchResult (Fulfilled 500)) =
      Some (contact_fetch_settled (Fulfilled 500))"
    by (simp add: contact_send_def env_formspree_def env_none_def truthy_def js_def)
  have b: "both_banners_visible stale_page"
    by (simp add: both_banners_visible_def visible_def stale_page_def hidden_banner_def)
  let ?w0 = "idle_world filled_page"
  have g: "busy_guard ?w0" "banner_guard ?w0"
    by (simp_all add: busy_guard_def banner_guard_def both_banners_visible_def visible_def
        in_flight_def example_defs)
  have v0: "contact_valid (doc ?w0)" by (simp add: idle_world_def contact_valid_filled)
  define w1 where "w1 = dispatch_submit env_formspree Contact ?w0"
  have r: "run env_formspree [UserSubmit Contact] ?w0 = Some w1"
    by (simp add: step_def user_can_submit_def w1_def example_defs)
  from dispatch_contact_valid[OF v0, of env_formspree]
  have f: "in_flight Contact w1 \<noteq> []"
    unfolding w1_def by (auto simp: in_flight_def)
  from one_banner_at_most[of env_formspree stale_page "contact_send env_formspree ps"
      "FetchResult (Fulfilled 500)" "contact_fetch_settled (Fulfilled 500)" ?w0 "[UserSubmit Contact]" w1]
    s c b g r f
  show ?thesis by auto
qed

subsection \<open>Pages on which the claims fail\<close>

lemma contact_valid_same_values:
  "(\<And>f. value_of p f = value_of filled_page f) \<Longrightarrow> contact_valid p"
  using contact_valid_cong[of p filled_page] contact_valid_filled by simp

lemma contact_valid_strong_last: "contact_valid strong_last_page"
  by (rule contact_valid_same_values) (simp add: strong_last_page_def value_of_def)

lemma contact_valid_no_button: "contact_valid no_button_page"
  by (rule contact_valid_same_values) (simp add: no_button_page_def value_of_def)

lemma not_takes_message_strong_last: "\<not> takes_message (contact_error strong_last_page)"
  by (simp add: takes_message_def strong_last_page_def hidden_banner_def)

lemma takes_message_submitted [simp]:
  "takes_message (contact_error (showSpinner True (after_checks p))) = takes_message (contact_error p)"
  by simp

lemma step_settled_contact:
  assumes "i < length (tasks w)" "owner (tasks w ! i) = Contact"
    and "continuation Contact (waits (tasks w ! i)) r = Some k" "due (tasks w ! i) (clock w)"
  shows "step env (Settled i r) w = Some (resume k i w)"
  using assms by (simp add: step_def)

text \<open>A submission of the contact form on a page, and the settlement of what it started.\<close>

lemma submit_then_settle:
  assumes v: "contact_valid p" and c: "\<And>ps. continuation Contact (contact_send env ps) r = Some k"
    and d: "\<And>ps. \<forall>ms. contact_send env ps \<noteq> AwaitTimeout ms"
  shows "run env [Submit Contact, Settled 0 r] (idle_world p) =
     Some (resume k 0 (dispatch_submit env Contact (idle_world p))) \<and>
     doc (dispatch_submit env Contact (idle_world p)) = showSpinner True (after_checks p) \<and>
     uncaught (dispatch_submit env Contact (idle_world p)) = []"
proof -
  let ?w0 = "idle_world p"
  have "contact_valid (doc ?w0)" using v by (simp add: idle_world_def)
  from dispatch_contact_valid[OF this, of env] obtain ps where
    w1: "dispatch_submit env Contact ?w0 =
       \<lparr>doc = showSpinner True (after_checks p),
        tasks = [\<lparr>owner = Contact, waits = contact_send env ps, since = 0\<rparr>],
        clock = 0, uncaught = []\<rparr>"
    by (auto simp: idle_world_def)
  have du: "due \<lparr>owner = Contact, waits = contact_send env ps, since = 0\<rparr> 0"
    using d[of ps] by (cases "contact_send env ps") (auto simp: due_def)
  have "step env (Settled 0 r) (dispatch_submit env Contact ?w0) =
      Some (resume k 0 (dispatch_submit env Contact ?w0))"
    unfolding w1 by (rule step_settled_contact) (simp_all add: c du)
  moreover have "step env (Submit Contact) ?w0 = Some (dispatch_submit env Contact ?w0)"
    by (simp add: step_def)
  ultimately show ?thesis
    by (simp add: w1)
qed

lemma formspree_continuation:
  "truthy (FORMSPREE_ENDPOINT env_formspree)" "\<not> truthy (EMAILJS_SERVICE_ID env_formspree)"
  "continuation Contact (contact_send env_formspree ps) (FetchResult r) = Some (contact_fetch_settled r)"
  "\<forall>ms. contact_send env_formspree ps \<noteq> AwaitTimeout ms"
  by (simp_all add: contact_send_def env_formspree_def env_none_def truthy_def js_def)

lemma service_continuation:
  "truthy (EMAILJS_SERVICE_ID env_service_only)" "window_emailjs env_service_only"
  "continuation Contact (contact_send env_service_only ps) (EmailjsResult r) =
     Some (contact_emailjs_settled r)"
  "\<forall>ms. contact_send env_service_only ps \<noteq> AwaitTimeout ms"
  by (simp_all add: contact_send_def env_service_only_def env_none_def truthy_def js_def)

text \<open>
  C3 holds when the error banner can take a message (see above), and the code breaks it
  otherwise. On a page whose error banner ends with its \<^verbatim>\<open>strong\<close> element,
  \<^verbatim>\<open>toggleAlert\<close> throws when it is to write the message: after a response with the status
  500 it throws in the \<^verbatim>\<open>else\<close> branch and again in the \<^verbatim>\<open>catch\<close> block, after a
  rejected \<^verbatim>\<open>fetch\<close> in the \<^verbatim>\<open>catch\<close> block. The handler ends with a
  \<open>TypeError\<close> that nothing catches, and with neither \<open>ServiceFailure\<close> nor
  \<open>NetworkFailure\<close>; the banner is shown without a message.
\<close>

theorem form_relay_type_error:
  "\<not> resp_ok 500 \<and>
   fst (contact_fetch_settled (Fulfilled 500) strong_last_page) = Throw TypeError \<and>
   fst (contact_fetch_settled Rejected strong_last_page) = Throw TypeError \<and>
   map_option uncaught
     (run env_formspree [Submit Contact, Settled 0 (FetchResult (Fulfilled 500))]
        (idle_world strong_last_page)) = Some [TypeError] \<and>
   map_option uncaught
     (run env_formspree [Submit Contact, Settled 0 (FetchResult Rejected)]
        (idle_world strong_last_page)) = Some [TypeError]"
proof -
  have n: "\<not> resp_ok 500" by (simp add: resp_ok_def)
  have 1: "fst (contact_fetch_settled (Fulfilled 500) p) = Throw TypeError"
    "fst (contact_fetch_settled Rejected p) = Throw TypeError"
    if "\<not> takes_message (contact_error p)" for p
    using that n by (simp_all add: contact_fetch_not_ok contact_fetch_rejected)
  have 2: "map_option uncaught
     (run env_formspree [Submit Contact, Settled 0 (FetchResult r)] (idle_world strong_last_page)) =
      Some [TypeError]"
    if "r = Fulfilled 500 \<or> r = Rejected" for r
    using submit_then_settle[OF contact_valid_strong_last, of env_formspree "FetchResult r"
        "contact_fetch_settled r"] that 1 not_takes_message_strong_last
    by (auto simp: formspree_continuation resume_uncaught)
  from n 1[OF not_takes_message_strong_last] 2[of "Fulfilled 500"] 2[of Rejected]
  show ?thesis by simp
qed

text \<open>
  C4 holds when the error banner can take a message (see above), and the code breaks it
  otherwise. On a page whose error banner ends with its \<^verbatim>\<open>strong\<close> element, the
  \<^verbatim>\<open>catch\<close> block of the contact handler catches the rejection of
  \<^verbatim>\<open>window.emailjs.send\<close> and then throws itself, in \<^verbatim>\<open>toggleAlert\<close>: the handler ends
  with a \<open>TypeError\<close> that nothing catches and not with \<open>ServiceFailure\<close>, and no
  message is written.
\<close>

theorem mail_relay_type_error:
  "fst (contact_emailjs_settled Rejected strong_last_page) = Throw TypeError \<and>
   map_option uncaught
     (run env_service_only [Submit Contact, Settled 0 (EmailjsResult Rejected)]
        (idle_world strong_last_page)) = Some [TypeError] \<and>
   map_option (\<lambda>w. map_option body (contact_error (doc w)))
     (run env_service_only [Submit Contact, Settled 0 (EmailjsResult Rejected)]
        (idle_world strong_last_page)) = Some (Some StrongLast)"
proof -
  have 1: "fst (contact_emailjs_settled Rejected p) = Throw TypeError"
    if "\<not> takes_message (contact_error p)" for p
    using that by (simp add: contact_emailjs_rejected)
  have b: "map_option body (contact_error (show_error m (showSpinner True (after_checks strong_last_page)))) =
      Some StrongLast" for m
    by (simp add: show_error_def after_checks_def toggleAlert_def setBanner_def getBanner_def Let_def
        strong_last_page_def hidden_banner_def truthy_def filled_page_def)
  from submit_then_settle[OF contact_valid_strong_last, of env_service_only "EmailjsResult Rejected"
        "contact_emailjs_settled Rejected"] 1 not_takes_message_strong_last b
  show ?thesis
    by (auto simp: service_continuation resume_uncaught resume_doc_tasks contact_emailjs_rejected)
qed

text \<open>
  C7, as stated, fails: \<^verbatim>\<open>form.reset()\<close> gives every input its default value back, which
  is the input's \<^verbatim>\<open>value\<close> attribute. After a response with the status 200 the name
  input of the prefilled page holds its default \<^verbatim>\<open>Bob\<close> again: it is not cleared.
\<close>

theorem reset_not_cleared_counterexample:
  "fst (contact_fetch_settled (Fulfilled 200) prefilled_page) = Normal Success \<and>
   value_of prefilled_page Name = Some (js ''Ada'') \<and>
   value_of (snd (contact_fetch_settled (Fulfilled 200) prefilled_page)) Name = Some (js ''Bob'') \<and>
   js ''Bob'' \<noteq> []"
  by (simp add: contact_fetch_ok resp_ok_def)
     (simp add: default_of_def value_of_def prefilled_page_def filled_page_def js_def)

text \<open>
  C9, as stated, fails: with the service id set and the template id, the public key and the
  endpoint empty, no backend is configured in the specification's sense; the contact
  handler does not use the demo strategy but calls EmailJS.
\<close>

theorem no_backend_counterexample:
  "stated_no_backend env_service_only \<and> contact_valid filled_page \<and>
   selected Contact env_service_only filled_page = Some MailRelayStrategy \<and>
   fst (contact_submit env_service_only filled_page) \<noteq> Normal (Pending (AwaitTimeout 800))"
proof -
  from contact_submit_valid[OF contact_valid_filled, of env_service_only] obtain ps where
    "fst (contact_submit env_service_only filled_page) =
       Normal (Pending (contact_send env_service_only ps))" by auto
  moreover have "contact_send env_service_only ps \<noteq> AwaitTimeout 800"
    using service_continuation(4)[of ps] by simp
  moreover have "stated_no_backend env_service_only"
    by (simp add: stated_no_backend_def env_service_only_def env_none_def truthy_def)
  moreover have "selected Contact env_service_only filled_page = Some MailRelayStrategy"
    using selected_contact[OF contact_valid_filled, of env_service_only]
    by (simp add: service_continuation)
  ultimately show ?thesis using contact_valid_filled by simp
qed

subsection \<open>Overlapping submissions of the contact form\<close>

lemma present_toggleAlert [simp]:
  "contact_success (snd (toggleAlert i s m p)) = None \<longleftrightarrow> contact_success p = None"
  "contact_error (snd (toggleAlert i s m p)) = None \<longleftrightarrow> contact_error p = None"
  by (auto simp: toggleAlert_def setBanner_def getBanner_def Let_def
      split: option.splits banner_id.splits banner_body.splits)

lemma present_after_checks [simp]:
  "contact_success (after_checks p) = None \<longleftrightarrow> contact_success p = None"
  "contact_error (after_checks p) = None \<longleftrightarrow> contact_error p = None"
  by (simp_all add: after_checks_def)

lemma visible_shown [simp]:
  "visible (contact_success (show_success p)) \<longleftrightarrow> contact_success p \<noteq> None"
  "visible (contact_error (show_error m p)) \<longleftrightarrow> contact_error p \<noteq> None"
  by (simp_all add: show_success_def show_error_def visible_toggleAlert)

lemma show_success_frame [simp]:
  "takes_message (contact_error (show_success p)) = takes_message (contact_error p)"
  "contact_error (show_success p) = None \<longleftrightarrow> contact_error p = None"
  by (simp_all add: show_success_def)

text \<open>
  Two submissions of the contact form, the second before the first has settled; then a
  response with the status 200 to the first and one with the status 500 to the second.
  Every handler has run to its end, without an exception, and both banners are visible.
\<close>

lemma overlap_both_visible:
  assumes v: "contact_valid p" and s: "contact_success p \<noteq> None" and e: "contact_error p \<noteq> None"
    and t: "takes_message (contact_error p)"
    and s1: "step env_formspree ev (idle_world p) = Some (dispatch_submit env_formspree Contact (idle_world p))"
    and s2: "step env_formspree ev (dispatch_submit env_formspree Contact (idle_world p)) =
       Some (dispatch_submit env_formspree Contact (dispatch_submit env_formspree Contact (idle_world p)))"
  shows "map_option (\<lambda>w. (both_banners_visible (doc w), tasks w, uncaught w))
     (run env_formspree
        [ev, ev, Settled 0 (FetchResult (Fulfilled 200)), Settled 0 (FetchResult (Fulfilled 500))]
        (idle_world p)) = Some (True, [], [])"
proof -
  let ?env = env_formspree
  let ?w0 = "idle_world p"
  let ?q1 = "showSpinner True (after_checks p)"
  let ?q2 = "showSpinner True (after_checks ?q1)"
  let ?k = "\<lambda>n. contact_fetch_settled (Fulfilled n)"
  have "contact_valid (doc ?w0)" using v by (simp add: idle_world_def)
  from dispatch_contact_valid[OF this, of ?env] obtain ps where
    w1: "dispatch_submit ?env Contact ?w0 =
       \<lparr>doc = ?q1, tasks = [\<lparr>owner = Contact, waits = contact_send ?env ps, since = 0\<rparr>],
        clock = 0, uncaught = []\<rparr>"
    by (auto simp: idle_world_def)
  let ?w1 = "dispatch_submit ?env Contact ?w0"
  have "contact_valid (doc ?w1)" using v by (simp add: w1)
  from dispatch_contact_valid[OF this, of ?env] obtain ps' where
    w2: "dispatch_submit ?env Contact ?w1 =
       \<lparr>doc = ?q2,
        tasks = [\<lparr>owner = Contact, waits = contact_send ?env ps, since = 0\<rparr>,
                 \<lparr>owner = Contact, waits = contact_send ?env ps', since = 0\<rparr>],
        clock = 0, uncaught = []\<rparr>"
    by (auto simp: w1)
  let ?w2 = "dispatch_submit ?env Contact ?w1"
  have du: "due \<lparr>owner = Contact, waits = contact_send ?env x, since = 0\<rparr> 0" for x
    using formspree_continuation(4)[of x] by (cases "contact_send ?env x") (auto simp: due_def)
  have s3: "step ?env (Settled 0 (FetchResult (Fulfilled 200))) ?w2 = Some (resume (?k 200) 0 ?w2)"
    unfolding w2 by (rule step_settled_contact) (simp_all add: formspree_continuation du)
  have w3: "resume (?k 200) 0 ?w2 =
       \<lparr>doc = show_success ?q2,
        tasks = [\<lparr>owner = Contact, waits = contact_send ?env ps', since = 0\<rparr>],
        clock = 0, uncaught = []\<rparr>"
    unfolding w2 by (simp add: resume_def contact_fetch_ok resp_ok_def remove_nth_def)
  let ?w3 = "resume (?k 200) 0 ?w2"
  have s4: "step ?env (Settled 0 (FetchResult (Fulfilled 500))) ?w3 = Some (resume (?k 500) 0 ?w3)"
    unfolding w3 by (rule step_settled_contact) (simp_all add: formspree_continuation du)
  have w4: "resume (?k 500) 0 ?w3 =
       \<lparr>doc = show_error msg_contact_failed (show_success ?q2), tasks = [], clock = 0, uncaught = []\<rparr>"
    unfolding w3 using t by (simp add: resume_def contact_fetch_not_ok resp_ok_def remove_nth_def)
  have b: "both_banners_visible (show_error msg_contact_failed (show_success ?q2))"
    using s e by (simp add: both_banners_visible_def)
  from s1 s2 s3 s4 have "run ?env
        [ev, ev, Settled 0 (FetchResult (Fulfilled 200)), Settled 0 (FetchResult (Fulfilled 500))]
        ?w0 = Some (resume (?k 500) 0 ?w3)"
    by simp
  with w4 b show ?thesis by simp
qed

text \<open>
  C10, as stated, fails: the handler does not look at the busy state, so two submissions
  of the contact form can overlap. On a page without the submit control of the id
  \<^verbatim>\<open>contact-submit\<close> the user can submit twice in a row; on any page two submit events
  can reach the handler. When the first request then gets a response with the status 200
  and the second one with the status 500, every submit event has been fully processed and
  both banners are visible.
\<close>

theorem overlapping_submissions_counterexample:
  "map_option (\<lambda>w. (both_banners_visible (doc w), tasks w, uncaught w))
     (run env_formspree
        [UserSubmit Contact, UserSubmit Contact,
         Settled 0 (FetchResult (Fulfilled 200)), Settled 0 (FetchResult (Fulfilled 500))]
        (idle_world no_button_page)) = Some (True, [], []) \<and>
   map_option (\<lambda>w. (both_banners_visible (doc w), tasks w, uncaught w))
     (run env_formspree
        [Submit Contact, Submit Contact,
         Settled 0 (FetchResult (Fulfilled 200)), Settled 0 (FetchResult (Fulfilled 500))]
        (idle_world filled_page)) = Some (True, [], [])"
proof -
  have p: "contact_success no_button_page \<noteq> None" "contact_error no_button_page \<noteq> None"
    "takes_message (contact_error no_button_page)" "contact_submit_disabled no_button_page = None"
    "contact_success filled_page \<noteq> None" "contact_error filled_page \<noteq> None"
    by (simp_all add: no_button_page_def filled_page_def takes_message_def hidden_banner_def)
  have u: "step env_formspree (UserSubmit Contact) w = Some (dispatch_submit env_formspree Contact w)"
    if "contact_submit_disabled (doc w) = None" for w
    using that by (simp add: step_def user_can_submit_def)
  have d: "contact_submit_disabled (doc (dispatch_submit env_formspree Contact (idle_world no_button_page))) = None"
    using dispatch_contact_valid[of "idle_world no_button_page" env_formspree]
      contact_valid_no_button p
    by (auto simp: idle_world_def)
  have 1: "map_option (\<lambda>w. (both_banners_visible (doc w), tasks w, uncaught w))
     (run env_formspree
        [UserSubmit Contact, UserSubmit Contact,
         Settled 0 (FetchResult (Fulfilled 200)), Settled 0 (FetchResult (Fulfilled 500))]
        (idle_world no_button_page)) = Some (True, [], [])"
  proof (rule overlap_both_visible[OF contact_valid_no_button p(1,2,3)])
    show "step env_formspree (UserSubmit Contact) (idle_world no_button_page) =
        Some (dispatch_submit env_formspree Contact (idle_world no_button_page))"
      by (rule u) (simp add: idle_world_def p)
    show "step env_formspree (UserSubmit Contact)
         (dispatch_submit env_formspree Contact (idle_world no_button_page)) =
        Some (dispatch_submit env_formspree Contact
               (dispatch_submit env_formspree Contact (idle_world no_button_page)))"
      by (rule u[OF d])
  qed
  have 2: "map_option (\<lambda>w. (both_banners_visible (doc w), tasks w, uncaught w))
     (run env_formspree
        [Submit Contact, Submit Contact,
         Settled 0 (FetchResult (Fulfilled 200)), Settled 0 (FetchResult (Fulfilled 500))]
        (idle_world filled_page)) = Some (True, [], [])"
    by (rule overlap_both_visible[OF contact_valid_filled p(5,6) takes_message_filled])
       (simp_all add: step_def)
  from 1 2 show ?thesis by simp
qed

end
